theory Spec2Isabelle
  imports Complex_Main "HOL-Library.AList" "HOL-Library.Char_ord" "HOL-Library.List_Lexorder"
begin

section \<open>The household power-consumption tracker (app.py)\<close>

text \<open>
  The application is a set of Flask handlers over two SQLite tables. The embedding keeps
  the handlers as functions on an explicit store:
  \<^item> a table is the list of its rows in rowid order, which is the order SQLite returns
    them in for a query without ORDER BY;
  \<^item> a Python \<open>float\<close> is a \<open>real\<close>: the arithmetic of the handlers is exact here,
    and rounding and the infinities are outside the model;
  \<^item> \<open>request.form\<close> and \<open>request.args\<close> are maps from field names to the submitted
    text; the builtin \<open>float(...)\<close> is a parameter \<open>py_float\<close> of the handlers that read
    numbers: it gives the finite number \<open>float\<close> reads, and \<open>None\<close> is its
    \<open>ValueError\<close>. The texts \<open>float\<close> reads as NaN are recognised by \<open>nan_text\<close>
    where a NaN would be written to the database;
  \<^item> an exception is a value \<open>Inl e\<close>; the session is committed only on the normal path,
    so a request that raises leaves the store as it was;
  \<^item> the iteration order of a Python \<open>set\<close> of strings is given by a parameter \<open>rank\<close>
    (the place the interpreter's hash table gives each string): every order of a finite
    set is the order of some rank.
  The table MonthlySummary is declared by the source and used by no handler; it is left
  out, as are the handlers that only read and render a form (index, the GET side of
  appliance_setup and daily_input, get_day_data).
\<close>

subsection \<open>COUNTRY_DATA\<close>

record tariff =
  voltage :: int
  frequency :: int
  cost_per_kwh :: real

definition COUNTRY_DATA :: "(string \<times> tariff) list" where
  "COUNTRY_DATA =
    [(''USA'', \<lparr>voltage = 120, frequency = 60, cost_per_kwh = 0.15\<rparr>),
     (''Canada'', \<lparr>voltage = 120, frequency = 60, cost_per_kwh = 0.12\<rparr>),
     (''UK'', \<lparr>voltage = 230, frequency = 50, cost_per_kwh = 0.22\<rparr>),
     (''Germany'', \<lparr>voltage = 230, frequency = 50, cost_per_kwh = 0.35\<rparr>),
     (''France'', \<lparr>voltage = 230, frequency = 50, cost_per_kwh = 0.19\<rparr>),
     (''Australia'', \<lparr>voltage = 230, frequency = 50, cost_per_kwh = 0.25\<rparr>),
     (''Japan'', \<lparr>voltage = 100, frequency = 50, cost_per_kwh = 0.26\<rparr>),
     (''India'', \<lparr>voltage = 230, frequency = 50, cost_per_kwh = 0.08\<rparr>),
     (''China'', \<lparr>voltage = 220, frequency = 50, cost_per_kwh = 0.10\<rparr>),
     (''Brazil'', \<lparr>voltage = 127, frequency = 60, cost_per_kwh = 0.18\<rparr>)]"

subsection \<open>Database models\<close>

text \<open>
  \<open>app_id\<close> and \<open>dc_id\<close> are the two \<open>id\<close> columns, \<open>app_created_at\<close> and
  \<open>dc_created_at\<close> the two \<open>created_at\<close> columns (a clock reading, here a number).
\<close>

record appliance =
  app_id :: int
  name :: string
  power_watts :: real
  app_created_at :: nat

record daily_consumption =
  dc_id :: int
  date :: string
  appliance_id :: int
  hours_used :: real
  consumption_kwh :: real
  dc_created_at :: nat

record store =
  appliance_table :: "appliance list"
  daily_consumption_table :: "daily_consumption list"

definition empty_store :: store where
  "empty_store = \<lparr>appliance_table = [], daily_consumption_table = []\<rparr>"

text \<open>
  The key SQLite gives a row inserted without one: 1 in an empty table, otherwise one
  more than the largest key in use.
\<close>

definition new_id :: "int list \<Rightarrow> int" where
  "new_id ids = (if ids = [] then 1 else Max (set ids) + 1)"

subsection \<open>Requests, responses, errors\<close>

type_synonym form = "string \<rightharpoonup> string"

datatype error =
  NotFound | BadRequestKeyError | ValueError | KeyError | OverflowError | IntegrityError

text \<open>\<open>str(n)\<close> for an integer, as the f-string \<open>f'hours_{appliance.id}'\<close> renders it.\<close>

definition digit :: "nat \<Rightarrow> char" where
  "digit n = ''0123456789'' ! n"

function str_nat :: "nat \<Rightarrow> string" where
  "str_nat n = (if n < 10 then [digit n] else str_nat (n div 10) @ [digit (n mod 10)])"
  by pat_completeness auto
termination
  by (relation "measure (\<lambda>n. n)") auto

declare str_nat.simps [simp del]

definition str_int :: "int \<Rightarrow> string" where
  "str_int i = (if i < 0 then ''-'' @ str_nat (nat (- i)) else str_nat (nat i))"

definition hours_key :: "int \<Rightarrow> string" where
  "hours_key i = ''hours_'' @ str_int i"

text \<open>Lower case for the letters of ASCII; every other character stays.\<close>

definition ascii_lower :: "char \<Rightarrow> char" where
  "ascii_lower c =
    (case map_of (zip ''ABCDEFGHIJKLMNOPQRSTUVWXYZ'' ''abcdefghijklmnopqrstuvwxyz'') c of
       None \<Rightarrow> c
     | Some l \<Rightarrow> l)"

text \<open>
  The texts of ASCII characters that \<open>float\<close> reads as NaN: \<open>nan\<close> in any case,
  with an optional sign, between white space (space, tab, newline, vertical tab, form
  feed, carriage return). \<open>nan_\<close>, \<open>+ nan\<close> and \<open>nan(1)\<close> are not among them.
\<close>

definition py_space :: "char \<Rightarrow> bool" where
  "py_space c \<longleftrightarrow> c \<in> set [CHR 0x20, CHR 0x09, CHR 0x0A, CHR 0x0B, CHR 0x0C, CHR 0x0D]"

definition py_strip :: "string \<Rightarrow> string" where
  "py_strip txt = rev (dropWhile py_space (rev (dropWhile py_space txt)))"

definition nan_text :: "string \<Rightarrow> bool" where
  "nan_text txt =
    (let t = py_strip txt;
         u = (case t of
                [] \<Rightarrow> t
              | c # cs \<Rightarrow> if c = CHR ''+'' \<or> c = CHR ''-'' then cs else t)
     in map ascii_lower u = ''nan'')"

text \<open>
  The integers SQLite stores and the driver binds: 64 bits, signed. Binding any other
  integer raises \<open>OverflowError\<close>.
\<close>

definition sqlite_integer :: "int \<Rightarrow> bool" where
  "sqlite_integer i \<longleftrightarrow> - 9223372036854775808 \<le> i \<and> i < 9223372036854775808"

subsection \<open>The views the report handlers render\<close>

record monthly_view =
  mr_month :: string
  mr_country :: string
  mr_total_kwh :: real
  mr_total_cost :: real
  mr_carbon_footprint :: real
  mr_monthly_totals :: "(string \<times> real) list"
  mr_daily_max_consumers :: "(string \<times> string \<times> real) list"
  mr_available_months :: "string list"

record analysis_view =
  da_month :: string
  da_daily_max_consumers :: "(string \<times> string \<times> real) list"
  da_appliance_days :: "(string \<times> int) list"
  da_most_frequent_max :: "string option \<times> int"
  da_total_days :: nat

datatype response =
  Redirect string
  | Render_monthly_results monthly_view
  | Render_daily_analysis analysis_view

subsection \<open>appliance_setup (POST) and delete_appliance\<close>

text \<open>
  \<open>float\<close> raises \<open>ValueError\<close> on a text that is no number. A NaN is bound as NULL,
  which the column \<open>power_watts\<close> (\<open>nullable=False\<close>) refuses: the commit raises
  \<open>IntegrityError\<close> and nothing is stored.
\<close>

definition appliance_setup_post ::
  "(string \<Rightarrow> real option) \<Rightarrow> nat \<Rightarrow> form \<Rightarrow> store \<Rightarrow> error + (store \<times> response)" where
  "appliance_setup_post py_float now frm s =
    (case frm ''name'' of
       None \<Rightarrow> Inl BadRequestKeyError
     | Some nm \<Rightarrow>
        (case frm ''power_watts'' of
           None \<Rightarrow> Inl BadRequestKeyError
         | Some txt \<Rightarrow>
            if nan_text txt then Inl IntegrityError
            else
              (case py_float txt of
                 None \<Rightarrow> Inl ValueError
               | Some pw \<Rightarrow>
                  Inr (s\<lparr>appliance_table := appliance_table s @
                          [\<lparr>app_id = new_id (map app_id (appliance_table s)), name = nm,
                            power_watts = pw, app_created_at = now\<rparr>]\<rparr>,
                       Redirect ''appliance_setup''))))"

text \<open>
  \<open>get_or_404\<close> reads the row with that primary key; \<open>db.session.delete\<close> removes it
  and, by the relationship's \<open>cascade="all, delete-orphan"\<close>, the rows of
  \<open>appliance.daily_consumptions\<close>: those whose \<open>appliance_id\<close> is its id. The route
  \<open><int:appliance_id>\<close> passes any run of digits, and the query of \<open>get_or_404\<close>
  raises \<open>OverflowError\<close> when the id is no SQLite integer; such an id is the id of
  no row.
\<close>

definition delete_appliance :: "int \<Rightarrow> store \<Rightarrow> error + (store \<times> response)" where
  "delete_appliance i s =
    (case find (\<lambda>a. app_id a = i) (appliance_table s) of
       None \<Rightarrow> if sqlite_integer i then Inl NotFound else Inl OverflowError
     | Some a \<Rightarrow>
        Inr (\<lparr>appliance_table = filter (\<lambda>x. app_id x \<noteq> app_id a) (appliance_table s),
              daily_consumption_table =
                filter (\<lambda>r. appliance_id r \<noteq> app_id a) (daily_consumption_table s)\<rparr>,
             Redirect ''appliance_setup''))"

subsection \<open>daily_input (POST)\<close>

text \<open>
  \<open>request.form.get(key, 0)\<close> is the number 0 when the field is absent, and
  \<open>float\<close> of the submitted text otherwise.
\<close>

definition form_hours :: "(string \<Rightarrow> real option) \<Rightarrow> form \<Rightarrow> int \<Rightarrow> real option" where
  "form_hours py_float frm i =
    (case frm (hours_key i) of None \<Rightarrow> Some 0 | Some txt \<Rightarrow> py_float txt)"

text \<open>
  The body of \<open>if hours_used > 0:\<close> for one appliance, on the rows of
  DailyConsumption as the session sees them: the first row of that date and appliance is
  updated (an assignment to \<open>existing\<close> is the UPDATE of the row with its primary
  key), or a row is added.
\<close>

definition upsert_row ::
  "nat \<Rightarrow> string \<Rightarrow> appliance \<Rightarrow> real \<Rightarrow> daily_consumption list \<Rightarrow> daily_consumption list" where
  "upsert_row now date_str a hours dcs =
    (let kwh = (power_watts a * hours) / 1000 in
     case find (\<lambda>r. date r = date_str \<and> appliance_id r = app_id a) dcs of
       Some existing \<Rightarrow>
         map (\<lambda>r. if dc_id r = dc_id existing
                   then r\<lparr>hours_used := hours, consumption_kwh := kwh\<rparr> else r) dcs
     | None \<Rightarrow>
         dcs @ [\<lparr>dc_id = new_id (map dc_id dcs), date = date_str,
                  appliance_id = app_id a, hours_used = hours,
                  consumption_kwh = kwh, dc_created_at = now\<rparr>])"

text \<open>The loop over the appliances; \<open>float\<close> raises on a text that is no number.\<close>

fun daily_input_loop ::
  "(string \<Rightarrow> real option) \<Rightarrow> nat \<Rightarrow> form \<Rightarrow> string \<Rightarrow> appliance list \<Rightarrow>
   daily_consumption list \<Rightarrow> error + daily_consumption list" where
  "daily_input_loop py_float now frm date_str [] dcs = Inr dcs"
| "daily_input_loop py_float now frm date_str (a # as) dcs =
    (case form_hours py_float frm (app_id a) of
       None \<Rightarrow> Inl ValueError
     | Some hours \<Rightarrow>
        if hours > 0
        then daily_input_loop py_float now frm date_str as (upsert_row now date_str a hours dcs)
        else daily_input_loop py_float now frm date_str as dcs)"

definition daily_input_post ::
  "(string \<Rightarrow> real option) \<Rightarrow> nat \<Rightarrow> form \<Rightarrow> store \<Rightarrow> error + (store \<times> response)" where
  "daily_input_post py_float now frm s =
    (let appliances = appliance_table s in
     if appliances = [] then Inr (s, Redirect ''appliance_setup'')
     else
       (case frm ''date'' of
          None \<Rightarrow> Inl BadRequestKeyError
        | Some date_str \<Rightarrow>
           (case daily_input_loop py_float now frm date_str appliances
                   (daily_consumption_table s) of
              Inl e \<Rightarrow> Inl e
            | Inr dcs \<Rightarrow> Inr (s\<lparr>daily_consumption_table := dcs\<rparr>, Redirect ''daily_input''))))"

subsection \<open>The requests that write, and the stores they reach\<close>

datatype request =
  POST_appliance_setup nat form
  | GET_delete_appliance int
  | POST_daily_input nat form

fun handle :: "(string \<Rightarrow> real option) \<Rightarrow> request \<Rightarrow> store \<Rightarrow> error + (store \<times> response)" where
  "handle py_float (POST_appliance_setup now frm) s = appliance_setup_post py_float now frm s"
| "handle py_float (GET_delete_appliance i) s = delete_appliance i s"
| "handle py_float (POST_daily_input now frm) s = daily_input_post py_float now frm s"

text \<open>The store after a request: what was committed, or the old store after an error.\<close>

definition store_after :: "store \<Rightarrow> error + (store \<times> response) \<Rightarrow> store" where
  "store_after s r = (case r of Inl e \<Rightarrow> s | Inr (s', resp) \<Rightarrow> s')"

inductive reachable :: "(string \<Rightarrow> real option) \<Rightarrow> store \<Rightarrow> bool"
  for py_float :: "string \<Rightarrow> real option" where
  reachable_empty: "reachable py_float empty_store"
| reachable_step:
    "reachable py_float s \<Longrightarrow> reachable py_float (store_after s (handle py_float req s))"

subsection \<open>Queries the report handlers share\<close>

text \<open>
  SQLite's \<open>LIKE\<close>, pattern first: \<open>%\<close> matches any run of characters, \<open>_\<close> any one
  character, and a letter of ASCII matches in either case.
\<close>

fun sql_like :: "string \<Rightarrow> string \<Rightarrow> bool" where
  "sql_like [] [] = True"
| "sql_like [] (c # cs) = False"
| "sql_like (p # ps) [] = (p = CHR ''%'' \<and> sql_like ps [])"
| "sql_like (p # ps) (c # cs) =
    (if p = CHR ''%'' then sql_like ps (c # cs) \<or> sql_like (p # ps) cs
     else if p = CHR ''_'' then sql_like ps cs
     else ascii_lower p = ascii_lower c \<and> sql_like ps cs)"

text \<open>\<open>DailyConsumption.query.filter(DailyConsumption.date.like(f"{month}-%")).all()\<close>\<close>

definition month_rows :: "string \<Rightarrow> store \<Rightarrow> daily_consumption list" where
  "month_rows month s =
    filter (\<lambda>dc. sql_like (month @ ''-%'') (date dc)) (daily_consumption_table s)"

text \<open>
  \<open>{app.id: app for app in appliances}\<close>: of two appliances with one id the later would
  stay.
\<close>

definition appliance_map_of :: "appliance list \<Rightarrow> (int \<rightharpoonup> appliance)" where
  "appliance_map_of appliances = map_of (rev (map (\<lambda>a. (app_id a, a)) appliances))"

text \<open>
  \<open>for date in set(xs)\<close>: each element once, in the order of the hash table, which is
  the parameter \<open>rank\<close>.
\<close>

definition set_iter :: "(string \<Rightarrow> nat) \<Rightarrow> string list \<Rightarrow> string list" where
  "set_iter rank xs = sort_key rank (remdups xs)"

text \<open>\<open>request.args.get(key, default)\<close>\<close>

definition args_get :: "form \<Rightarrow> string \<Rightarrow> string \<Rightarrow> string" where
  "args_get args key dflt = (case args key of None \<Rightarrow> dflt | Some v \<Rightarrow> v)"

subsection \<open>monthly_results\<close>

text \<open>
  The loop over the rows of one day: the state is \<open>monthly_totals\<close>,
  \<open>day_max_consumption\<close> and \<open>day_max_appliance\<close>. Both dictionary reads raise
  \<open>KeyError\<close> on a missing key.
\<close>

fun monthly_day_loop ::
  "(int \<rightharpoonup> appliance) \<Rightarrow> daily_consumption list \<Rightarrow> (string \<times> real) list \<times> real \<times> string \<Rightarrow>
   error + ((string \<times> real) list \<times> real \<times> string)" where
  "monthly_day_loop appliance_map [] st = Inr st"
| "monthly_day_loop appliance_map (dc # rest) (monthly_totals, day_max_consumption, day_max_appliance) =
    (case appliance_map (appliance_id dc) of
       None \<Rightarrow> Inl KeyError
     | Some a \<Rightarrow>
        (case map_of monthly_totals (name a) of
           None \<Rightarrow> Inl KeyError
         | Some t \<Rightarrow>
            (let monthly_totals' = AList.update (name a) (t + consumption_kwh dc) monthly_totals in
             if consumption_kwh dc > day_max_consumption
             then monthly_day_loop appliance_map rest (monthly_totals', consumption_kwh dc, name a)
             else monthly_day_loop appliance_map rest
                    (monthly_totals', day_max_consumption, day_max_appliance))))"

fun monthly_dates_loop ::
  "(int \<rightharpoonup> appliance) \<Rightarrow> daily_consumption list \<Rightarrow> string list \<Rightarrow>
   (string \<times> real) list \<times> (string \<times> string \<times> real) list \<Rightarrow>
   error + ((string \<times> real) list \<times> (string \<times> string \<times> real) list)" where
  "monthly_dates_loop appliance_map daily_consumptions [] st = Inr st"
| "monthly_dates_loop appliance_map daily_consumptions (d # ds) (monthly_totals, daily_max_consumers) =
    (case monthly_day_loop appliance_map (filter (\<lambda>dc. date dc = d) daily_consumptions)
            (monthly_totals, 0, '''') of
       Inl e \<Rightarrow> Inl e
     | Inr (monthly_totals', day_max_consumption, day_max_appliance) \<Rightarrow>
        monthly_dates_loop appliance_map daily_consumptions ds
          (monthly_totals',
           AList.update d (day_max_appliance, day_max_consumption) daily_max_consumers))"

text \<open>
  Lines 155 to 184 of the handler: the query, the two dictionaries and the total.
\<close>

definition monthly_aggregate ::
  "(string \<Rightarrow> nat) \<Rightarrow> string \<Rightarrow> store \<Rightarrow>
   error + ((string \<times> real) list \<times> (string \<times> string \<times> real) list \<times> real)" where
  "monthly_aggregate rank month s =
    (let daily_consumptions = month_rows month s;
         appliances = appliance_table s;
         appliance_map = appliance_map_of appliances;
         monthly_totals0 = fold (\<lambda>a d. AList.update (name a) 0 d) appliances [];
         dates = set_iter rank (map date daily_consumptions)
     in case monthly_dates_loop appliance_map daily_consumptions dates (monthly_totals0, []) of
          Inl e \<Rightarrow> Inl e
        | Inr (monthly_totals, daily_max_consumers) \<Rightarrow>
           Inr (monthly_totals, daily_max_consumers, sum_list (map snd monthly_totals)))"

text \<open>
  \<open>this_month\<close> is \<open>datetime.now().strftime("%Y-%m")\<close>, the default of the \<open>month\<close>
  argument.
\<close>

definition monthly_results ::
  "(string \<Rightarrow> nat) \<Rightarrow> string \<Rightarrow> form \<Rightarrow> store \<Rightarrow> error + response" where
  "monthly_results rank this_month args s =
    (let month = args_get args ''month'' this_month;
         country = args_get args ''country'' ''USA''
     in case monthly_aggregate rank month s of
          Inl e \<Rightarrow> Inl e
        | Inr (monthly_totals, daily_max_consumers, total_monthly_kwh) \<Rightarrow>
           (case map_of COUNTRY_DATA country of
              None \<Rightarrow> Inl KeyError
            | Some entry \<Rightarrow>
               (let total_cost = total_monthly_kwh * cost_per_kwh entry;
                    carbon_footprint = total_monthly_kwh * 0.5;
                    available_months =
                      rev (sort (remdups (map (\<lambda>dc. take 7 (date dc))
                                            (daily_consumption_table s))))
                in Inr (Render_monthly_results
                     \<lparr>mr_month = month, mr_country = country,
                      mr_total_kwh = total_monthly_kwh, mr_total_cost = total_cost,
                      mr_carbon_footprint = carbon_footprint,
                      mr_monthly_totals = monthly_totals,
                      mr_daily_max_consumers = daily_max_consumers,
                      mr_available_months = available_months\<rparr>))))"

subsection \<open>daily_analysis\<close>

fun analysis_day_loop ::
  "(int \<rightharpoonup> appliance) \<Rightarrow> daily_consumption list \<Rightarrow> real \<times> string \<Rightarrow> error + (real \<times> string)" where
  "analysis_day_loop appliance_map [] st = Inr st"
| "analysis_day_loop appliance_map (dc # rest) (day_max_consumption, day_max_appliance) =
    (case appliance_map (appliance_id dc) of
       None \<Rightarrow> Inl KeyError
     | Some a \<Rightarrow>
        if consumption_kwh dc > day_max_consumption
        then analysis_day_loop appliance_map rest (consumption_kwh dc, name a)
        else analysis_day_loop appliance_map rest (day_max_consumption, day_max_appliance))"

fun analysis_dates_loop ::
  "(int \<rightharpoonup> appliance) \<Rightarrow> daily_consumption list \<Rightarrow> string list \<Rightarrow>
   (string \<times> string \<times> real) list \<Rightarrow> error + (string \<times> string \<times> real) list" where
  "analysis_dates_loop appliance_map daily_consumptions [] daily_max_consumers =
    Inr daily_max_consumers"
| "analysis_dates_loop appliance_map daily_consumptions (d # ds) daily_max_consumers =
    (case analysis_day_loop appliance_map (filter (\<lambda>dc. date dc = d) daily_consumptions)
            (0, '''') of
       Inl e \<Rightarrow> Inl e
     | Inr (day_max_consumption, day_max_appliance) \<Rightarrow>
        analysis_dates_loop appliance_map daily_consumptions ds
          (AList.update d (day_max_appliance, day_max_consumption) daily_max_consumers))"

text \<open>
  \<open>max(items, key=lambda x: x[1])\<close> keeps the first item among those with the greatest
  count.
\<close>

fun max_by_count :: "string \<times> int \<Rightarrow> (string \<times> int) list \<Rightarrow> string \<times> int" where
  "max_by_count best [] = best"
| "max_by_count best (x # xs) = max_by_count (if snd x > snd best then x else best) xs"

definition count_days :: "(string \<times> string \<times> real) list \<Rightarrow> (string \<times> int) list" where
  "count_days daily_max_consumers =
    fold (\<lambda>(d, max_appliance, v) appliance_days.
            AList.update max_appliance
              ((case map_of appliance_days max_appliance of None \<Rightarrow> 0 | Some n \<Rightarrow> n) + 1)
              appliance_days)
         daily_max_consumers []"

definition daily_analysis ::
  "(string \<Rightarrow> nat) \<Rightarrow> string \<Rightarrow> form \<Rightarrow> store \<Rightarrow> error + response" where
  "daily_analysis rank this_month args s =
    (let month = args_get args ''month'' this_month;
         daily_consumptions = month_rows month s;
         appliance_map = appliance_map_of (appliance_table s);
         dates = set_iter rank (map date daily_consumptions)
     in case analysis_dates_loop appliance_map daily_consumptions dates [] of
          Inl e \<Rightarrow> Inl e
        | Inr daily_max_consumers \<Rightarrow>
           (let appliance_days = count_days daily_max_consumers;
                most_frequent_max =
                  (case appliance_days of
                     [] \<Rightarrow> (None, 0)
                   | x # xs \<Rightarrow> (let (n, c) = max_by_count x xs in (Some n, c)))
            in Inr (Render_daily_analysis
                 \<lparr>da_month = month, da_daily_max_consumers = daily_max_consumers,
                  da_appliance_days = appliance_days,
                  da_most_frequent_max = most_frequent_max,
                  da_total_days = length daily_max_consumers\<rparr>)))"

subsection \<open>Stores the handlers keep well formed\<close>

text \<open>
  What the database and the handlers maintain together: primary keys are unique, a date
  and an appliance have at most one row, and every row belongs to an appliance of the
  table and holds the consumption computed from that appliance's power and the row's
  hours.
\<close>

definition row_key :: "daily_consumption \<Rightarrow> string \<times> int" where
  "row_key r = (date r, appliance_id r)"

definition rows_ok :: "appliance list \<Rightarrow> daily_consumption list \<Rightarrow> bool" where
  "rows_ok apps dcs \<longleftrightarrow>
     distinct (map dc_id dcs) \<and> distinct (map row_key dcs) \<and>
     (\<forall>r \<in> set dcs. \<exists>a \<in> set apps.
        app_id a = appliance_id r \<and>
        consumption_kwh r = power_watts a * hours_used r / 1000)"

definition store_ok :: "store \<Rightarrow> bool" where
  "store_ok s \<longleftrightarrow>
     distinct (map app_id (appliance_table s)) \<and>
     rows_ok (appliance_table s) (daily_consumption_table s)"

text \<open>
  The row the report should name for a day, in the words of the specification: among the
  rows with the greatest consumption, the one met first.
\<close>

definition first_greatest :: "daily_consumption list \<Rightarrow> daily_consumption option" where
  "first_greatest rows =
     find (\<lambda>r. \<forall>x \<in> set rows. consumption_kwh x \<le> consumption_kwh r) rows"

subsection \<open>Example requests and stores\<close>

text \<open>
  \<open>float\<close> on the texts the examples submit; the examples submit no other text.
\<close>

definition sample_float :: "string \<Rightarrow> real option" where
  "sample_float txt =
     map_of [(''150'', 150), (''2000'', 2000), (''5'', 5), (''1'', 1), (''0'', 0), (''-5'', - 5)] txt"

definition fridge_form :: form where
  "fridge_form = [''name'' \<mapsto> ''Fridge'', ''power_watts'' \<mapsto> ''150'']"

definition ac_form :: form where
  "ac_form = [''name'' \<mapsto> ''AC'', ''power_watts'' \<mapsto> ''2000'']"

definition off_form :: form where
  "off_form = [''name'' \<mapsto> ''Off'', ''power_watts'' \<mapsto> ''0'']"

definition negative_form :: form where
  "negative_form = [''name'' \<mapsto> ''Heater'', ''power_watts'' \<mapsto> ''-5'']"

definition june1_form :: form where
  "june1_form = [''date'' \<mapsto> ''2024-06-01'', ''hours_1'' \<mapsto> ''5'']"

definition june2_form :: form where
  "june2_form = [''date'' \<mapsto> ''2024-06-02'', ''hours_1'' \<mapsto> ''5'', ''hours_2'' \<mapsto> ''1'']"

definition june1_zero_form :: form where
  "june1_zero_form = [''date'' \<mapsto> ''2024-06-01'', ''hours_1'' \<mapsto> ''0'']"

text \<open>Fridge (150 W) registered, then 5 hours logged on 2024-06-01.\<close>

definition fridge_store :: store where
  "fridge_store =
     store_after empty_store
       (handle sample_float (POST_appliance_setup 10 fridge_form) empty_store)"

definition june_store :: store where
  "june_store =
     store_after fridge_store (handle sample_float (POST_daily_input 20 june1_form) fridge_store)"

text \<open>Then AC (2000 W) registered, and on 2024-06-02 Fridge 5 hours, AC 1 hour.\<close>

definition home_store :: store where
  "home_store =
     (let s = store_after june_store
                (handle sample_float (POST_appliance_setup 30 ac_form) june_store)
      in store_after s (handle sample_float (POST_daily_input 40 june2_form) s))"

text \<open>An appliance of 0 W registered, then 5 hours logged on 2024-06-01.\<close>

definition off_store :: store where
  "off_store =
     (let s = store_after empty_store
                (handle sample_float (POST_appliance_setup 10 off_form) empty_store)
      in store_after s (handle sample_float (POST_daily_input 20 june1_form) s))"

section \<open>Properties\<close>

subsection \<open>The example stores, evaluated\<close>

lemmas run_simps = store_after_def appliance_setup_post_def daily_input_post_def
  empty_store_def new_id_def form_hours_def hours_key_def str_int_def str_nat.simps digit_def
  upsert_row_def sample_float_def nan_text_def py_strip_def py_space_def ascii_lower_def

lemma fridge_store_eq:
  "fridge_store =
    \<lparr>appliance_table =
       [\<lparr>app_id = 1, name = ''Fridge'', power_watts = 150, app_created_at = 10\<rparr>],
     daily_consumption_table = []\<rparr>"
  by (simp add: fridge_store_def fridge_form_def run_simps)

lemma june_store_eq:
  "june_store =
    \<lparr>appliance_table =
       [\<lparr>app_id = 1, name = ''Fridge'', power_watts = 150, app_created_at = 10\<rparr>],
     daily_consumption_table =
       [\<lparr>dc_id = 1, date = ''2024-06-01'', appliance_id = 1, hours_used = 5,
         consumption_kwh = 0.75, dc_created_at = 20\<rparr>]\<rparr>"
  by (simp add: june_store_def fridge_store_eq june1_form_def run_simps)

lemma home_store_eq:
  "home_store =
    \<lparr>appliance_table =
       [\<lparr>app_id = 1, name = ''Fridge'', power_watts = 150, app_created_at = 10\<rparr>,
        \<lparr>app_id = 2, name = ''AC'', power_watts = 2000, app_created_at = 30\<rparr>],
     daily_consumption_table =
       [\<lparr>dc_id = 1, date = ''2024-06-01'', appliance_id = 1, hours_used = 5,
         consumption_kwh = 0.75, dc_created_at = 20\<rparr>,
        \<lparr>dc_id = 2, date = ''2024-06-02'', appliance_id = 1, hours_used = 5,
         consumption_kwh = 0.75, dc_created_at = 40\<rparr>,
        \<lparr>dc_id = 3, date = ''2024-06-02'', appliance_id = 2, hours_used = 1,
         consumption_kwh = 2, dc_created_at = 40\<rparr>]\<rparr>"
  by (simp add: home_store_def june_store_eq june2_form_def ac_form_def run_simps)

lemma off_store_eq:
  "off_store =
    \<lparr>appliance_table =
       [\<lparr>app_id = 1, name = ''Off'', power_watts = 0, app_created_at = 10\<rparr>],
     daily_consumption_table =
       [\<lparr>dc_id = 1, date = ''2024-06-01'', appliance_id = 1, hours_used = 5,
         consumption_kwh = 0, dc_created_at = 20\<rparr>]\<rparr>"
  by (simp add: off_store_def off_form_def june1_form_def run_simps)

subsection \<open>delete_appliance\<close>

lemma delete_appliance_absent:
  assumes "i \<notin> app_id ` set (appliance_table s)"
  shows "delete_appliance i s = (if sqlite_integer i then Inl NotFound else Inl OverflowError)"
proof -
  from assms have "find (\<lambda>a. app_id a = i) (appliance_table s) = None"
    by (auto simp: find_None_iff)
  then show ?thesis by (simp add: delete_appliance_def)
qed

lemma delete_appliance_absent_store:
  assumes "i \<notin> app_id ` set (appliance_table s)"
  shows "store_after s (delete_appliance i s) = s"
  by (simp add: delete_appliance_absent [OF assms] store_after_def)

lemma delete_appliance_present:
  assumes "i \<in> app_id ` set (appliance_table s)"
  shows "delete_appliance i s =
    Inr (\<lparr>appliance_table = filter (\<lambda>x. app_id x \<noteq> i) (appliance_table s),
          daily_consumption_table =
            filter (\<lambda>r. appliance_id r \<noteq> i) (daily_consumption_table s)\<rparr>,
         Redirect ''appliance_setup'')"
proof (cases "find (\<lambda>a. app_id a = i) (appliance_table s)")
  case None
  with assms show ?thesis by (auto simp: find_None_iff)
next
  case (Some a)
  then have "app_id a = i" by (auto simp: find_Some_iff)
  with Some show ?thesis by (simp add: delete_appliance_def)
qed

text \<open>
  C3. Deleting an appliance whose id is in the table removes every DailyConsumption row
  that references it and nothing else: the rows left are the rows of the other
  appliances, unchanged and in their order, and the appliances left are the others,
  unchanged.
\<close>

theorem delete_appliance_cascade:
  assumes "i \<in> app_id ` set (appliance_table s)"
  shows "\<exists>s'. delete_appliance i s = Inr (s', Redirect ''appliance_setup'') \<and>
           (\<forall>r \<in> set (daily_consumption_table s'). appliance_id r \<noteq> i) \<and>
           daily_consumption_table s' =
             filter (\<lambda>r. appliance_id r \<noteq> i) (daily_consumption_table s) \<and>
           appliance_table s' = filter (\<lambda>a. app_id a \<noteq> i) (appliance_table s)"
  using delete_appliance_present [OF assms] by simp

theorem delete_appliance_cascade_witness:
  "1 \<in> app_id ` set (appliance_table home_store) \<and>
   (\<exists>s'. delete_appliance 1 home_store = Inr (s', Redirect ''appliance_setup'') \<and>
      daily_consumption_table s' =
        [\<lparr>dc_id = 3, date = ''2024-06-02'', appliance_id = 2, hours_used = 1,
          consumption_kwh = 2, dc_created_at = 40\<rparr>] \<and>
      appliance_table s' =
        [\<lparr>app_id = 2, name = ''AC'', power_watts = 2000, app_created_at = 30\<rparr>])"
proof -
  have h: "1 \<in> app_id ` set (appliance_table home_store)"
    by (simp add: home_store_eq)
  from delete_appliance_cascade [OF h] obtain s' where
    "delete_appliance 1 home_store = Inr (s', Redirect ''appliance_setup'')"
    "daily_consumption_table s' =
       filter (\<lambda>r. appliance_id r \<noteq> 1) (daily_consumption_table home_store)"
    "appliance_table s' = filter (\<lambda>a. app_id a \<noteq> 1) (appliance_table home_store)"
    by blast
  then have "delete_appliance 1 home_store = Inr (s', Redirect ''appliance_setup'') \<and>
      daily_consumption_table s' =
        [\<lparr>dc_id = 3, date = ''2024-06-02'', appliance_id = 2, hours_used = 1,
          consumption_kwh = 2, dc_created_at = 40\<rparr>] \<and>
      appliance_table s' =
        [\<lparr>app_id = 2, name = ''AC'', power_watts = 2000, app_created_at = 30\<rparr>]"
    by (simp add: home_store_eq)
  with h show ?thesis by blast
qed

text \<open>
  C4, as amended. For an id that no appliance of the table has, delete_appliance leaves
  the store as it was, and when the id is an SQLite integer (below \<open>2^63\<close>) it fails
  with NotFound, the 404 of \<open>get_or_404\<close>. For an id in the table it succeeds: the
  appliance and its rows are removed, no appliance has the id afterwards, and the
  response is the redirect to appliance_setup.
\<close>

theorem delete_appliance_not_found_in_range:
  "(i \<notin> app_id ` set (appliance_table s) \<longrightarrow>
      store_after s (delete_appliance i s) = s \<and>
      (sqlite_integer i \<longrightarrow> delete_appliance i s = Inl NotFound)) \<and>
   (i \<in> app_id ` set (appliance_table s) \<longrightarrow>
      delete_appliance i s =
        Inr (\<lparr>appliance_table = filter (\<lambda>a. app_id a \<noteq> i) (appliance_table s),
              daily_consumption_table =
                filter (\<lambda>r. appliance_id r \<noteq> i) (daily_consumption_table s)\<rparr>,
             Redirect ''appliance_setup'') \<and>
      i \<notin> app_id ` set (appliance_table (store_after s (delete_appliance i s))))"
proof (intro conjI impI)
  assume "i \<notin> app_id ` set (appliance_table s)"
  then show "store_after s (delete_appliance i s) = s"
    by (rule delete_appliance_absent_store)
next
  assume "i \<notin> app_id ` set (appliance_table s)" and "sqlite_integer i"
  then show "delete_appliance i s = Inl NotFound"
    by (simp add: delete_appliance_absent)
next
  assume "i \<in> app_id ` set (appliance_table s)"
  then show "delete_appliance i s =
        Inr (\<lparr>appliance_table = filter (\<lambda>a. app_id a \<noteq> i) (appliance_table s),
              daily_consumption_table =
                filter (\<lambda>r. appliance_id r \<noteq> i) (daily_consumption_table s)\<rparr>,
             Redirect ''appliance_setup'')"
    by (rule delete_appliance_present)
next
  assume "i \<in> app_id ` set (appliance_table s)"
  then show "i \<notin> app_id ` set (appliance_table (store_after s (delete_appliance i s)))"
    by (auto simp: delete_appliance_present store_after_def)
qed

theorem delete_appliance_not_found_in_range_witness:
  "7 \<notin> app_id ` set (appliance_table home_store) \<and> sqlite_integer 7 \<and>
   store_after home_store (delete_appliance 7 home_store) = home_store \<and>
   delete_appliance 7 home_store = Inl NotFound \<and>
   2 \<in> app_id ` set (appliance_table home_store) \<and>
   delete_appliance 2 home_store =
     Inr (\<lparr>appliance_table =
             [\<lparr>app_id = 1, name = ''Fridge'', power_watts = 150, app_created_at = 10\<rparr>],
           daily_consumption_table =
             [\<lparr>dc_id = 1, date = ''2024-06-01'', appliance_id = 1, hours_used = 5,
               consumption_kwh = 0.75, dc_created_at = 20\<rparr>,
              \<lparr>dc_id = 2, date = ''2024-06-02'', appliance_id = 1, hours_used = 5,
               consumption_kwh = 0.75, dc_created_at = 40\<rparr>]\<rparr>,
          Redirect ''appliance_setup'') \<and>
   2 \<notin> app_id ` set (appliance_table (store_after home_store (delete_appliance 2 home_store)))"
proof -
  have a: "7 \<notin> app_id ` set (appliance_table home_store)"
    and b: "2 \<in> app_id ` set (appliance_table home_store)"
    and c: "sqlite_integer 7"
    by (simp_all add: home_store_eq sqlite_integer_def)
  from delete_appliance_not_found_in_range [of 7 home_store] a c
  have one: "store_after home_store (delete_appliance 7 home_store) = home_store \<and>
             delete_appliance 7 home_store = Inl NotFound" by blast
  from delete_appliance_not_found_in_range [of 2 home_store] b
  have two: "delete_appliance 2 home_store =
        Inr (\<lparr>appliance_table = filter (\<lambda>a. app_id a \<noteq> 2) (appliance_table home_store),
              daily_consumption_table =
                filter (\<lambda>r. appliance_id r \<noteq> 2) (daily_consumption_table home_store)\<rparr>,
             Redirect ''appliance_setup'') \<and>
      2 \<notin> app_id ` set (appliance_table (store_after home_store (delete_appliance 2 home_store)))"
    by blast
  then have "delete_appliance 2 home_store =
     Inr (\<lparr>appliance_table =
             [\<lparr>app_id = 1, name = ''Fridge'', power_watts = 150, app_created_at = 10\<rparr>],
           daily_consumption_table =
             [\<lparr>dc_id = 1, date = ''2024-06-01'', appliance_id = 1, hours_used = 5,
               consumption_kwh = 0.75, dc_created_at = 20\<rparr>,
              \<lparr>dc_id = 2, date = ''2024-06-02'', appliance_id = 1, hours_used = 5,
               consumption_kwh = 0.75, dc_created_at = 40\<rparr>]\<rparr>,
          Redirect ''appliance_setup'')"
    by (simp add: home_store_eq)
  with a b c one two show ?thesis by blast
qed

text \<open>
  The sentence of the specification fails for an id beyond SQLite's integers: the id
  \<open>2^63\<close> is the id of no appliance, and the request ends in OverflowError, not in
  NotFound.
\<close>

theorem delete_appliance_overflow_counterexample:
  "9223372036854775808 \<notin> app_id ` set (appliance_table home_store) \<and>
   delete_appliance 9223372036854775808 home_store = Inl OverflowError"
  by (simp add: home_store_eq delete_appliance_def sqlite_integer_def)

subsection \<open>appliance_setup\<close>

lemma new_id_fresh: "new_id ids \<notin> set ids"
proof
  assume m: "new_id ids \<in> set ids"
  then have "ids \<noteq> []" by auto
  then have "new_id ids = Max (set ids) + 1" by (simp add: new_id_def)
  moreover from m have "new_id ids \<le> Max (set ids)" by simp
  ultimately show False by simp
qed

text \<open>
  C8, as amended. The handler checks only that the text of power_watts is a number, not
  its sign: a text that \<open>float\<close> rejects fails the request and no appliance is stored,
  and a text that \<open>float\<close> reads as a finite number, zero and the negative numbers
  included, stores one new appliance with that name, that power and a fresh id, and
  redirects.
\<close>

theorem appliance_setup_checks_no_sign:
  assumes "frm ''name'' = Some nm" and "frm ''power_watts'' = Some txt"
    and "\<not> nan_text txt"
  shows "(py_float txt = None \<longrightarrow>
            appliance_setup_post py_float now frm s = Inl ValueError \<and>
            store_after s (appliance_setup_post py_float now frm s) = s) \<and>
         (\<forall>pw. py_float txt = Some pw \<longrightarrow>
            (\<exists>a. appliance_setup_post py_float now frm s =
                    Inr (s\<lparr>appliance_table := appliance_table s @ [a]\<rparr>,
                         Redirect ''appliance_setup'') \<and>
                 name a = nm \<and> power_watts a = pw \<and>
                 app_id a \<notin> app_id ` set (appliance_table s)))"
proof (intro conjI allI impI)
  assume "py_float txt = None"
  with assms show "appliance_setup_post py_float now frm s = Inl ValueError"
    by (simp add: appliance_setup_post_def)
  then show "store_after s (appliance_setup_post py_float now frm s) = s"
    by (simp add: store_after_def)
next
  fix pw
  assume p: "py_float txt = Some pw"
  let ?a = "\<lparr>app_id = new_id (map app_id (appliance_table s)), name = nm,
              power_watts = pw, app_created_at = now\<rparr>"
  have "app_id ?a \<notin> app_id ` set (appliance_table s)"
    using new_id_fresh [of "map app_id (appliance_table s)"] by simp
  moreover have "appliance_setup_post py_float now frm s =
      Inr (s\<lparr>appliance_table := appliance_table s @ [?a]\<rparr>, Redirect ''appliance_setup'')"
    using assms p by (simp add: appliance_setup_post_def)
  ultimately show "\<exists>a. appliance_setup_post py_float now frm s =
                    Inr (s\<lparr>appliance_table := appliance_table s @ [a]\<rparr>,
                         Redirect ''appliance_setup'') \<and>
                 name a = nm \<and> power_watts a = pw \<and>
                 app_id a \<notin> app_id ` set (appliance_table s)"
    by (intro exI [of _ ?a]) simp
qed

theorem appliance_setup_checks_no_sign_witness:
  "off_form ''name'' = Some ''Off'' \<and> off_form ''power_watts'' = Some ''0'' \<and>
   \<not> nan_text ''0'' \<and> sample_float ''0'' = Some 0 \<and>
   (\<exists>a. appliance_setup_post sample_float 50 off_form home_store =
           Inr (home_store\<lparr>appliance_table := appliance_table home_store @ [a]\<rparr>,
                Redirect ''appliance_setup'') \<and>
        name a = ''Off'' \<and> power_watts a = 0 \<and>
        app_id a \<notin> app_id ` set (appliance_table home_store))"
proof -
  have a: "off_form ''name'' = Some ''Off''" and b: "off_form ''power_watts'' = Some ''0''"
    and n: "\<not> nan_text ''0''" and c: "sample_float ''0'' = Some 0"
    by (simp_all add: off_form_def run_simps)
  from appliance_setup_checks_no_sign [OF a b n, of sample_float 50 home_store] c
  show ?thesis using a b n by blast
qed

text \<open>
  The sentence of the specification fails: a submitted power of \<open>-5\<close> is stored.
\<close>

theorem appliance_setup_negative_power_counterexample:
  "appliance_setup_post sample_float 10 negative_form empty_store =
     Inr (\<lparr>appliance_table =
             [\<lparr>app_id = 1, name = ''Heater'', power_watts = - 5, app_created_at = 10\<rparr>],
           daily_consumption_table = []\<rparr>,
          Redirect ''appliance_setup'')"
  by (simp add: negative_form_def run_simps)

text \<open>
  A power that \<open>float\<close> reads as NaN stores nothing: the commit is refused.
\<close>

lemma nan_text_examples:
  "nan_text ''nan''" "nan_text ''NaN''" "nan_text '' -NAN ''" "nan_text ''+nan''"
  "\<not> nan_text ''nan_''" "\<not> nan_text ''+ nan''" "\<not> nan_text ''n an''"
  "\<not> nan_text ''-5''" "\<not> nan_text ''inf''" "\<not> nan_text ''''"
  by (simp_all add: nan_text_def py_strip_def py_space_def ascii_lower_def)

lemma appliance_setup_nan_refused:
  assumes "frm ''name'' = Some nm" and "frm ''power_watts'' = Some txt" and "nan_text txt"
  shows "appliance_setup_post py_float now frm s = Inl IntegrityError \<and>
         store_after s (appliance_setup_post py_float now frm s) = s"
  using assms by (simp add: appliance_setup_post_def store_after_def)

subsection \<open>upsert_row keeps the rows well formed\<close>

lemma find_key_None:
  "find (\<lambda>r. date r = d \<and> appliance_id r = i) dcs = None \<longleftrightarrow> (d, i) \<notin> row_key ` set dcs"
  by (auto simp: find_None_iff row_key_def image_iff)

lemma upsert_row_insert:
  assumes "(d, app_id a) \<notin> row_key ` set dcs"
  shows "upsert_row now d a h dcs =
     dcs @ [\<lparr>dc_id = new_id (map dc_id dcs), date = d, appliance_id = app_id a,
              hours_used = h, consumption_kwh = power_watts a * h / 1000,
              dc_created_at = now\<rparr>]"
proof -
  from assms have "find (\<lambda>r. date r = d \<and> appliance_id r = app_id a) dcs = None"
    by (simp add: find_key_None)
  then show ?thesis by (simp add: upsert_row_def)
qed

lemma upsert_row_update:
  assumes ids: "distinct (map dc_id dcs)" and keys: "distinct (map row_key dcs)"
    and mem: "(d, app_id a) \<in> row_key ` set dcs"
  shows "upsert_row now d a h dcs =
     map (\<lambda>r. if row_key r = (d, app_id a)
               then r\<lparr>hours_used := h, consumption_kwh := power_watts a * h / 1000\<rparr>
               else r) dcs"
proof -
  from mem obtain e where
    e: "find (\<lambda>r. date r = d \<and> appliance_id r = app_id a) dcs = Some e"
    by (cases "find (\<lambda>r. date r = d \<and> appliance_id r = app_id a) dcs")
       (auto simp: find_key_None)
  then have e_in: "e \<in> set dcs" and e_key: "row_key e = (d, app_id a)"
    by (auto simp: find_Some_iff row_key_def)
  from ids have inj_id: "inj_on dc_id (set dcs)" by (simp add: distinct_map)
  from keys have inj_key: "inj_on row_key (set dcs)" by (simp add: distinct_map)
  have same: "dc_id r = dc_id e \<longleftrightarrow> row_key r = (d, app_id a)" if "r \<in> set dcs" for r
  proof
    assume "dc_id r = dc_id e"
    with inj_id that e_in have "r = e" by (auto dest: inj_onD)
    with e_key show "row_key r = (d, app_id a)" by simp
  next
    assume "row_key r = (d, app_id a)"
    with e_key have "row_key r = row_key e" by simp
    with inj_key that e_in have "r = e" by (auto dest: inj_onD)
    then show "dc_id r = dc_id e" by simp
  qed
  have "upsert_row now d a h dcs =
     map (\<lambda>r. if dc_id r = dc_id e
               then r\<lparr>hours_used := h, consumption_kwh := power_watts a * h / 1000\<rparr>
               else r) dcs"
    using e by (simp add: upsert_row_def)
  also have "\<dots> = map (\<lambda>r. if row_key r = (d, app_id a)
               then r\<lparr>hours_used := h, consumption_kwh := power_watts a * h / 1000\<rparr>
               else r) dcs"
    by (rule map_cong) (simp_all add: same)
  finally show ?thesis .
qed

lemma upsert_row_ok:
  assumes a: "a \<in> set apps" and ok: "rows_ok apps dcs"
  shows "rows_ok apps (upsert_row now d a h dcs)"
proof (cases "(d, app_id a) \<in> row_key ` set dcs")
  case True
  define g where "g = (\<lambda>r. if row_key r = (d, app_id a)
               then r\<lparr>hours_used := h, consumption_kwh := power_watts a * h / 1000\<rparr>
               else r)"
  from ok True have eq: "upsert_row now d a h dcs = map g dcs"
    by (simp add: rows_ok_def upsert_row_update g_def)
  have "map dc_id (map g dcs) = map dc_id dcs" by (induction dcs) (auto simp: g_def)
  moreover from ok have "distinct (map dc_id dcs)" by (simp add: rows_ok_def)
  ultimately have d1: "distinct (map dc_id (map g dcs))" by (simp only:)
  have "map row_key (map g dcs) = map row_key dcs"
    by (induction dcs) (auto simp: row_key_def g_def)
  moreover from ok have "distinct (map row_key dcs)" by (simp add: rows_ok_def)
  ultimately have d2: "distinct (map row_key (map g dcs))" by (simp only:)
  have d3: "\<exists>b \<in> set apps. app_id b = appliance_id r' \<and>
      consumption_kwh r' = power_watts b * hours_used r' / 1000"
    if "r' \<in> set (map g dcs)" for r'
  proof -
    from that obtain r where r: "r \<in> set dcs" and r': "r' = g r" by auto
    show ?thesis
    proof (cases "row_key r = (d, app_id a)")
      case True
      then have "appliance_id r' = app_id a \<and>
          consumption_kwh r' = power_watts a * hours_used r' / 1000"
        by (simp add: r' g_def row_key_def)
      with a show ?thesis by (intro bexI [of _ a]) simp_all
    next
      case False
      then have "r' = r" by (simp add: r' g_def)
      with ok r show ?thesis by (simp add: rows_ok_def)
    qed
  qed
  from d1 d2 d3 show ?thesis unfolding eq rows_ok_def by blast
next
  case False
  define n where "n = \<lparr>dc_id = new_id (map dc_id dcs), date = d, appliance_id = app_id a,
              hours_used = h, consumption_kwh = power_watts a * h / 1000,
              dc_created_at = now\<rparr>"
  from False have eq: "upsert_row now d a h dcs = dcs @ [n]"
    unfolding n_def by (rule upsert_row_insert)
  have "dc_id n \<notin> set (map dc_id dcs)"
    using new_id_fresh [of "map dc_id dcs"] by (simp add: n_def)
  with ok have d1: "distinct (map dc_id (dcs @ [n]))" by (simp add: rows_ok_def)
  have "row_key n \<notin> set (map row_key dcs)" using False by (simp add: row_key_def n_def)
  with ok have d2: "distinct (map row_key (dcs @ [n]))" by (simp add: rows_ok_def)
  have "appliance_id n = app_id a \<and>
      consumption_kwh n = power_watts a * hours_used n / 1000"
    by (simp add: n_def)
  with a have "\<exists>b \<in> set apps. app_id b = appliance_id n \<and>
      consumption_kwh n = power_watts b * hours_used n / 1000"
    by (intro bexI [of _ a]) simp_all
  with ok have d3: "\<forall>r \<in> set (dcs @ [n]). \<exists>b \<in> set apps. app_id b = appliance_id r \<and>
      consumption_kwh r = power_watts b * hours_used r / 1000"
    by (simp add: rows_ok_def)
  from d1 d2 d3 show ?thesis unfolding eq rows_ok_def by blast
qed

lemma distinct_map_filter_single:
  assumes "distinct (map f xs)" and "x \<in> set xs"
  shows "filter (\<lambda>y. f y = f x) xs = [x]"
  using assms
proof (induction xs)
  case Nil
  then show ?case by simp
next
  case (Cons y ys)
  show ?case
  proof (cases "x = y")
    case True
    from Cons.prems(1) have "f y \<notin> f ` set ys" by simp
    then have "\<forall>z \<in> set ys. f z \<noteq> f y" by (metis imageI)
    then have "filter (\<lambda>z. f z = f y) ys = []" by (simp add: filter_empty_conv)
    with True show ?thesis by simp
  next
    case False
    with Cons.prems have "x \<in> set ys" and "f y \<noteq> f x" by auto
    with Cons.IH Cons.prems(1) show ?thesis by simp
  qed
qed

lemma upsert_row_has:
  assumes ok: "rows_ok apps dcs"
  shows "\<exists>r \<in> set (upsert_row now d a h dcs).
           row_key r = (d, app_id a) \<and> hours_used r = h \<and>
           consumption_kwh r = power_watts a * h / 1000"
proof (cases "(d, app_id a) \<in> row_key ` set dcs")
  case True
  then obtain e where e: "e \<in> set dcs" "row_key e = (d, app_id a)" by auto
  define g where "g = (\<lambda>r. if row_key r = (d, app_id a)
               then r\<lparr>hours_used := h, consumption_kwh := power_watts a * h / 1000\<rparr>
               else r)"
  from ok True have eq: "upsert_row now d a h dcs = map g dcs"
    by (simp add: rows_ok_def upsert_row_update g_def)
  from e(1) have "g e \<in> set (map g dcs)" by simp
  moreover from e(2) have "row_key (g e) = (d, app_id a) \<and> hours_used (g e) = h \<and>
      consumption_kwh (g e) = power_watts a * h / 1000"
    by (simp add: row_key_def g_def)
  ultimately show ?thesis unfolding eq by blast
next
  case False
  then show ?thesis by (simp add: upsert_row_insert row_key_def)
qed

lemma upsert_row_stored:
  assumes a: "a \<in> set apps" and ok: "rows_ok apps dcs"
  shows "\<exists>r. filter (\<lambda>x. row_key x = (d, app_id a)) (upsert_row now d a h dcs) = [r] \<and>
           hours_used r = h \<and> consumption_kwh r = power_watts a * h / 1000"
proof -
  from upsert_row_has [OF ok] obtain r where
    r: "r \<in> set (upsert_row now d a h dcs)" "row_key r = (d, app_id a)"
       "hours_used r = h" "consumption_kwh r = power_watts a * h / 1000"
    by blast
  from upsert_row_ok [OF a ok] have "distinct (map row_key (upsert_row now d a h dcs))"
    by (simp add: rows_ok_def)
  from distinct_map_filter_single [OF this r(1)] r show ?thesis by simp
qed

lemma upsert_row_frame:
  assumes ok: "rows_ok apps dcs" and p: "\<not> P (d, app_id a)"
  shows "filter (\<lambda>r. P (row_key r)) (upsert_row now d a h dcs) = filter (\<lambda>r. P (row_key r)) dcs"
proof (cases "(d, app_id a) \<in> row_key ` set dcs")
  case True
  let ?g = "\<lambda>r. if row_key r = (d, app_id a)
               then r\<lparr>hours_used := h, consumption_kwh := power_watts a * h / 1000\<rparr>
               else r"
  from ok True have "upsert_row now d a h dcs = map ?g dcs"
    by (simp add: rows_ok_def upsert_row_update)
  moreover have "filter (\<lambda>r. P (row_key r)) (map ?g xs) = filter (\<lambda>r. P (row_key r)) xs" for xs
    using p by (induction xs) (auto simp: row_key_def)
  ultimately show ?thesis by simp
next
  case False
  with p show ?thesis by (simp add: upsert_row_insert row_key_def)
qed

subsection \<open>The loop of daily_input\<close>

lemma daily_input_loop_ok:
  assumes "set as \<subseteq> set apps" and "rows_ok apps dcs"
    and "daily_input_loop py_float now frm d as dcs = Inr dcs'"
  shows "rows_ok apps dcs'"
  using assms
proof (induction as arbitrary: dcs)
  case Nil
  then show ?case by simp
next
  case (Cons a as)
  from Cons.prems(3) obtain h where h: "form_hours py_float frm (app_id a) = Some h"
    by (cases "form_hours py_float frm (app_id a)") auto
  from Cons.prems(1) have a: "a \<in> set apps" and sub: "set as \<subseteq> set apps" by auto
  show ?case
  proof (cases "h > 0")
    case True
    with h Cons.prems(3)
    have "daily_input_loop py_float now frm d as (upsert_row now d a h dcs) = Inr dcs'" by simp
    from Cons.IH [OF sub upsert_row_ok [OF a Cons.prems(2)] this] show ?thesis .
  next
    case False
    with h Cons.prems(3) have "daily_input_loop py_float now frm d as dcs = Inr dcs'" by simp
    from Cons.IH [OF sub Cons.prems(2) this] show ?thesis .
  qed
qed

lemma daily_input_loop_frame:
  assumes "set as \<subseteq> set apps" and "rows_ok apps dcs"
    and "\<forall>a \<in> set as. P (d, app_id a) \<longrightarrow>
           (\<forall>h. form_hours py_float frm (app_id a) = Some h \<longrightarrow> h \<le> 0)"
    and "daily_input_loop py_float now frm d as dcs = Inr dcs'"
  shows "filter (\<lambda>r. P (row_key r)) dcs' = filter (\<lambda>r. P (row_key r)) dcs"
  using assms
proof (induction as arbitrary: dcs)
  case Nil
  then show ?case by simp
next
  case (Cons a as)
  from Cons.prems(4) obtain h where h: "form_hours py_float frm (app_id a) = Some h"
    by (cases "form_hours py_float frm (app_id a)") auto
  from Cons.prems(1) have a: "a \<in> set apps" and sub: "set as \<subseteq> set apps" by auto
  from Cons.prems(3) have rest: "\<forall>a \<in> set as. P (d, app_id a) \<longrightarrow>
           (\<forall>h. form_hours py_float frm (app_id a) = Some h \<longrightarrow> h \<le> 0)" by simp
  show ?case
  proof (cases "h > 0")
    case True
    with h Cons.prems(3) have np: "\<not> P (d, app_id a)" by fastforce
    from True h Cons.prems(4)
    have "daily_input_loop py_float now frm d as (upsert_row now d a h dcs) = Inr dcs'" by simp
    from Cons.IH [OF sub upsert_row_ok [OF a Cons.prems(2)] rest this]
    show ?thesis by (simp add: upsert_row_frame [where P = P, OF Cons.prems(2) np])
  next
    case False
    with h Cons.prems(4) have "daily_input_loop py_float now frm d as dcs = Inr dcs'" by simp
    from Cons.IH [OF sub Cons.prems(2) rest this] show ?thesis .
  qed
qed

lemma daily_input_loop_stored:
  assumes "set as \<subseteq> set apps" and "rows_ok apps dcs" and "distinct (map app_id as)"
    and "a \<in> set as" and "form_hours py_float frm (app_id a) = Some h" and "h > 0"
    and "daily_input_loop py_float now frm d as dcs = Inr dcs'"
  shows "\<exists>r. filter (\<lambda>x. row_key x = (d, app_id a)) dcs' = [r] \<and>
           hours_used r = h \<and> consumption_kwh r = power_watts a * h / 1000"
  using assms
proof (induction as arbitrary: dcs)
  case Nil
  then show ?case by simp
next
  case (Cons b bs)
  from Cons.prems(1) have b: "b \<in> set apps" and sub: "set bs \<subseteq> set apps" by auto
  from Cons.prems(3) have dist: "distinct (map app_id bs)"
    and fresh: "app_id b \<notin> app_id ` set bs" by auto
  show ?case
  proof (cases "a = b")
    case True
    with Cons.prems(5-7)
    have run: "daily_input_loop py_float now frm d bs (upsert_row now d a h dcs) = Inr dcs'"
      by simp
    from True b have a: "a \<in> set apps" by simp
    from True fresh have "\<forall>c \<in> set bs. app_id c \<noteq> app_id a" by (metis imageI)
    then have "\<forall>c \<in> set bs. (d, app_id c) = (d, app_id a) \<longrightarrow>
           (\<forall>h. form_hours py_float frm (app_id c) = Some h \<longrightarrow> h \<le> 0)" by simp
    from daily_input_loop_frame [where P = "\<lambda>k. k = (d, app_id a)",
        OF sub upsert_row_ok [OF a Cons.prems(2)] this run]
    have "filter (\<lambda>x. row_key x = (d, app_id a)) dcs' =
          filter (\<lambda>x. row_key x = (d, app_id a)) (upsert_row now d a h dcs)" .
    with upsert_row_stored [OF a Cons.prems(2), of d now h] show ?thesis by simp
  next
    case False
    with Cons.prems(4) have a_in: "a \<in> set bs" by simp
    from Cons.prems(7) obtain hb where hb: "form_hours py_float frm (app_id b) = Some hb"
      by (cases "form_hours py_float frm (app_id b)") auto
    show ?thesis
    proof (cases "hb > 0")
      case True
      with hb Cons.prems(7)
      have "daily_input_loop py_float now frm d bs (upsert_row now d b hb dcs) = Inr dcs'"
        by simp
      from Cons.IH [OF sub upsert_row_ok [OF b Cons.prems(2)] dist a_in Cons.prems(5,6) this]
      show ?thesis .
    next
      case False
      with hb Cons.prems(7)
      have "daily_input_loop py_float now frm d bs dcs = Inr dcs'" by simp
      from Cons.IH [OF sub Cons.prems(2) dist a_in Cons.prems(5,6) this] show ?thesis .
    qed
  qed
qed

lemma daily_input_loop_succeeds:
  assumes "\<forall>a \<in> set as. form_hours py_float frm (app_id a) \<noteq> None"
  shows "\<exists>dcs'. daily_input_loop py_float now frm d as dcs = Inr dcs'"
  using assms by (induction as arbitrary: dcs) auto

lemma daily_input_loop_parsed:
  assumes "daily_input_loop py_float now frm d as dcs = Inr dcs'"
  shows "\<forall>a \<in> set as. form_hours py_float frm (app_id a) \<noteq> None"
  using assms by (induction as arbitrary: dcs) (auto split: option.splits if_splits)

lemma upsert_row_same:
  assumes ok: "rows_ok apps dcs" and r: "r \<in> set dcs" and key: "row_key r = (d, app_id a)"
    and vals: "hours_used r = h" "consumption_kwh r = power_watts a * h / 1000"
  shows "upsert_row now d a h dcs = dcs"
proof -
  define g where "g = (\<lambda>r. if row_key r = (d, app_id a)
               then r\<lparr>hours_used := h, consumption_kwh := power_watts a * h / 1000\<rparr>
               else r)"
  from r key have "(d, app_id a) \<in> row_key ` set dcs" by (metis imageI)
  with ok have eq: "upsert_row now d a h dcs = map g dcs"
    by (simp add: rows_ok_def upsert_row_update g_def)
  from ok have inj: "inj_on row_key (set dcs)" by (simp add: rows_ok_def distinct_map)
  have "g x = x" if "x \<in> set dcs" for x
  proof (cases "row_key x = (d, app_id a)")
    case True
    with key have "row_key x = row_key r" by simp
    with inj that r have "x = r" by (auto dest: inj_onD)
    with vals True show ?thesis by (simp add: g_def)
  next
    case False
    then show ?thesis by (simp add: g_def)
  qed
  then have "map g dcs = dcs" by (simp add: map_idI)
  with eq show ?thesis by simp
qed

lemma daily_input_loop_same:
  assumes "rows_ok apps dcs"
    and "\<forall>a \<in> set as. \<exists>h. form_hours py_float frm (app_id a) = Some h \<and>
           (h > 0 \<longrightarrow> (\<exists>r \<in> set dcs. row_key r = (d, app_id a) \<and> hours_used r = h \<and>
                          consumption_kwh r = power_watts a * h / 1000))"
  shows "daily_input_loop py_float now frm d as dcs = Inr dcs"
  using assms(2)
proof (induction as)
  case Nil
  then show ?case by simp
next
  case (Cons a as)
  from Cons.prems obtain h where h: "form_hours py_float frm (app_id a) = Some h"
    and row: "h > 0 \<longrightarrow> (\<exists>r \<in> set dcs. row_key r = (d, app_id a) \<and> hours_used r = h \<and>
                          consumption_kwh r = power_watts a * h / 1000)"
    by auto
  from Cons.prems have rest: "\<forall>a \<in> set as. \<exists>h. form_hours py_float frm (app_id a) = Some h \<and>
           (h > 0 \<longrightarrow> (\<exists>r \<in> set dcs. row_key r = (d, app_id a) \<and> hours_used r = h \<and>
                          consumption_kwh r = power_watts a * h / 1000))" by simp
  show ?case
  proof (cases "h > 0")
    case True
    with row obtain r where "r \<in> set dcs" "row_key r = (d, app_id a)" "hours_used r = h"
      "consumption_kwh r = power_watts a * h / 1000" by blast
    from upsert_row_same [OF assms(1) this] have "upsert_row now d a h dcs = dcs" .
    with True h Cons.IH [OF rest] show ?thesis by simp
  next
    case False
    with h Cons.IH [OF rest] show ?thesis by simp
  qed
qed

subsection \<open>Every request keeps the store well formed\<close>

lemma rows_ok_mono:
  assumes "set apps \<subseteq> set apps'" and "rows_ok apps dcs"
  shows "rows_ok apps' dcs"
  using assms unfolding rows_ok_def by blast

lemma appliance_setup_post_ok:
  assumes "store_ok s"
  shows "store_ok (store_after s (appliance_setup_post py_float now frm s))"
proof (cases "appliance_setup_post py_float now frm s")
  case (Inl e)
  with assms show ?thesis by (simp add: store_after_def)
next
  case (Inr p)
  then obtain nm pw where
    p: "p = (s\<lparr>appliance_table := appliance_table s @
               [\<lparr>app_id = new_id (map app_id (appliance_table s)), name = nm,
                 power_watts = pw, app_created_at = now\<rparr>]\<rparr>, Redirect ''appliance_setup'')"
    by (auto simp: appliance_setup_post_def split: option.splits if_splits)
  have "new_id (map app_id (appliance_table s)) \<notin> set (map app_id (appliance_table s))"
    by (rule new_id_fresh)
  with assms have "distinct (map app_id (appliance_table (fst p)))"
    by (simp add: p store_ok_def)
  moreover from assms have "rows_ok (appliance_table (fst p)) (daily_consumption_table (fst p))"
    by (auto simp: p store_ok_def intro: rows_ok_mono [of "appliance_table s"])
  ultimately have "store_ok (fst p)" by (simp add: store_ok_def)
  moreover have "store_after s (appliance_setup_post py_float now frm s) = fst p"
    using Inr by (simp add: store_after_def split_beta)
  ultimately show ?thesis by simp
qed

lemma delete_appliance_ok:
  assumes "store_ok s"
  shows "store_ok (store_after s (delete_appliance i s))"
proof (cases "i \<in> app_id ` set (appliance_table s)")
  case False
  with assms show ?thesis by (simp add: delete_appliance_absent_store)
next
  case True
  let ?apps = "filter (\<lambda>x. app_id x \<noteq> i) (appliance_table s)"
  let ?dcs = "filter (\<lambda>r. appliance_id r \<noteq> i) (daily_consumption_table s)"
  from assms have "distinct (map app_id ?apps)"
    by (simp add: store_ok_def distinct_map_filter)
  moreover from assms have "distinct (map dc_id ?dcs)" "distinct (map row_key ?dcs)"
    by (simp_all add: store_ok_def rows_ok_def distinct_map_filter)
  moreover have "\<exists>a \<in> set ?apps. app_id a = appliance_id r \<and>
      consumption_kwh r = power_watts a * hours_used r / 1000" if "r \<in> set ?dcs" for r
  proof -
    from that have r: "r \<in> set (daily_consumption_table s)" "appliance_id r \<noteq> i" by auto
    with assms obtain a where a: "a \<in> set (appliance_table s)" "app_id a = appliance_id r"
      "consumption_kwh r = power_watts a * hours_used r / 1000"
      unfolding store_ok_def rows_ok_def by blast
    with r have "a \<in> set ?apps" by simp
    with a show ?thesis by blast
  qed
  ultimately have "store_ok \<lparr>appliance_table = ?apps, daily_consumption_table = ?dcs\<rparr>"
    unfolding store_ok_def rows_ok_def by simp
  with True show ?thesis by (simp add: delete_appliance_present store_after_def)
qed

lemma daily_input_post_ok:
  assumes "store_ok s"
  shows "store_ok (store_after s (daily_input_post py_float now frm s))"
proof (cases "daily_input_post py_float now frm s")
  case (Inl e)
  with assms show ?thesis by (simp add: store_after_def)
next
  case (Inr p)
  show ?thesis
  proof (cases "appliance_table s = []")
    case True
    with Inr have "p = (s, Redirect ''appliance_setup'')" by (simp add: daily_input_post_def)
    with Inr assms show ?thesis by (simp add: store_after_def)
  next
    case False
    with Inr obtain d dcs' where
      run: "daily_input_loop py_float now frm d (appliance_table s) (daily_consumption_table s) =
              Inr dcs'"
      and p: "p = (s\<lparr>daily_consumption_table := dcs'\<rparr>, Redirect ''daily_input'')"
      by (auto simp: daily_input_post_def split: option.splits sum.splits)
    from assms have "rows_ok (appliance_table s) (daily_consumption_table s)"
      by (simp add: store_ok_def)
    from daily_input_loop_ok [OF subset_refl this run] assms Inr p
    show ?thesis by (simp add: store_after_def store_ok_def)
  qed
qed

lemma reachable_ok:
  assumes "reachable py_float s"
  shows "store_ok s"
  using assms
proof (induction rule: reachable.induct)
  case reachable_empty
  show ?case by (simp add: store_ok_def rows_ok_def empty_store_def)
next
  case (reachable_step s req)
  then show ?case
    by (cases req) (simp_all add: appliance_setup_post_ok delete_appliance_ok daily_input_post_ok)
qed

lemma daily_input_post_stored:
  assumes ok: "store_ok s" and a: "a \<in> set (appliance_table s)"
    and d: "frm ''date'' = Some d" and h: "form_hours py_float frm (app_id a) = Some h" "h > 0"
    and run: "daily_input_post py_float now frm s = Inr (s', resp)"
  shows "\<exists>r. filter (\<lambda>x. date x = d \<and> appliance_id x = app_id a) (daily_consumption_table s') = [r] \<and>
           hours_used r = h \<and> consumption_kwh r = power_watts a * h / 1000"
proof -
  from a have ne: "appliance_table s \<noteq> []" by auto
  with run d obtain dcs' where
    loop: "daily_input_loop py_float now frm d (appliance_table s) (daily_consumption_table s) =
             Inr dcs'"
    and s': "s' = s\<lparr>daily_consumption_table := dcs'\<rparr>"
    by (auto simp: daily_input_post_def split: sum.splits)
  from ok have "rows_ok (appliance_table s) (daily_consumption_table s)"
    and "distinct (map app_id (appliance_table s))" by (simp_all add: store_ok_def)
  from daily_input_loop_stored [OF subset_refl this a h loop]
  show ?thesis by (simp add: s' row_key_def)
qed

lemma daily_input_post_again:
  assumes ok: "store_ok s" and d: "frm ''date'' = Some d"
    and ne: "appliance_table s \<noteq> []"
    and run: "daily_input_post py_float t1 frm s = Inr (s1, resp1)"
  shows "daily_input_post py_float t2 frm s1 = Inr (s1, Redirect ''daily_input'')"
proof -
  from run d ne obtain dcs1 where
    loop: "daily_input_loop py_float t1 frm d (appliance_table s) (daily_consumption_table s) =
             Inr dcs1"
    and s1: "s1 = s\<lparr>daily_consumption_table := dcs1\<rparr>"
    by (auto simp: daily_input_post_def split: sum.splits)
  from ok have rows: "rows_ok (appliance_table s) (daily_consumption_table s)"
    and dist: "distinct (map app_id (appliance_table s))" by (simp_all add: store_ok_def)
  from daily_input_loop_ok [OF subset_refl rows loop]
  have rows1: "rows_ok (appliance_table s) dcs1" .
  have "\<exists>h. form_hours py_float frm (app_id a) = Some h \<and>
           (h > 0 \<longrightarrow> (\<exists>r \<in> set dcs1. row_key r = (d, app_id a) \<and> hours_used r = h \<and>
                          consumption_kwh r = power_watts a * h / 1000))"
    if a: "a \<in> set (appliance_table s)" for a
  proof -
    from daily_input_loop_parsed [OF loop] a obtain h where
      h: "form_hours py_float frm (app_id a) = Some h" by auto
    have "\<exists>r \<in> set dcs1. row_key r = (d, app_id a) \<and> hours_used r = h \<and>
            consumption_kwh r = power_watts a * h / 1000" if pos: "h > 0"
    proof -
      from daily_input_loop_stored [OF subset_refl rows dist a h pos loop] obtain r where
        r: "filter (\<lambda>x. row_key x = (d, app_id a)) dcs1 = [r]" "hours_used r = h"
           "consumption_kwh r = power_watts a * h / 1000" by blast
      from r(1) have "r \<in> set (filter (\<lambda>x. row_key x = (d, app_id a)) dcs1)" by simp
      then have "r \<in> set dcs1" "row_key r = (d, app_id a)" by auto
      with r show ?thesis by blast
    qed
    with h show ?thesis by blast
  qed
  then have "daily_input_loop py_float t2 frm d (appliance_table s) dcs1 = Inr dcs1"
    by (intro daily_input_loop_same [OF rows1]) blast
  with d ne show ?thesis by (simp add: daily_input_post_def s1)
qed

subsection \<open>The example stores are reachable\<close>

lemma reachable_fridge_store: "reachable sample_float fridge_store"
  unfolding fridge_store_def by (intro reachable_step reachable_empty)

lemma reachable_june_store: "reachable sample_float june_store"
  unfolding june_store_def by (intro reachable_step reachable_fridge_store)

lemma reachable_home_store: "reachable sample_float home_store"
  unfolding home_store_def Let_def by (intro reachable_step reachable_june_store)

lemma reachable_off_store: "reachable sample_float off_store"
  unfolding off_store_def Let_def by (intro reachable_step reachable_empty)

lemma june_post:
  "daily_input_post sample_float 20 june1_form fridge_store = Inr (june_store, Redirect ''daily_input'')"
  by (simp add: june_store_eq fridge_store_eq june1_form_def run_simps)

subsection \<open>daily_input: what a submission stores\<close>

text \<open>
  C1. In every store the application reaches, each DailyConsumption row holds the
  consumption computed from the power of its appliance and its own hours,
  \<open>power_watts * hours_used / 1000\<close>: no request edits the column on its own. And a
  daily-input submission that is accepted and logs \<open>h > 0\<close> hours for an appliance on a
  date leaves exactly one row for that date and appliance, with \<open>hours_used = h\<close> and
  \<open>consumption_kwh = power_watts * h / 1000\<close>.
\<close>

theorem consumption_kwh_from_power_and_hours:
  assumes "reachable py_float s"
  shows "(\<forall>r \<in> set (daily_consumption_table s). \<exists>a \<in> set (appliance_table s).
            app_id a = appliance_id r \<and>
            consumption_kwh r = power_watts a * hours_used r / 1000) \<and>
         (\<forall>now frm d a h s' resp.
            a \<in> set (appliance_table s) \<and> frm ''date'' = Some d \<and>
            form_hours py_float frm (app_id a) = Some h \<and> h > 0 \<and>
            daily_input_post py_float now frm s = Inr (s', resp) \<longrightarrow>
            (\<exists>r. filter (\<lambda>x. date x = d \<and> appliance_id x = app_id a)
                    (daily_consumption_table s') = [r] \<and>
                 hours_used r = h \<and> consumption_kwh r = power_watts a * h / 1000))"
proof -
  from assms have ok: "store_ok s" by (rule reachable_ok)
  then have "\<forall>r \<in> set (daily_consumption_table s). \<exists>a \<in> set (appliance_table s).
            app_id a = appliance_id r \<and>
            consumption_kwh r = power_watts a * hours_used r / 1000"
    by (simp add: store_ok_def rows_ok_def)
  moreover have "\<exists>r. filter (\<lambda>x. date x = d \<and> appliance_id x = app_id a)
                    (daily_consumption_table s') = [r] \<and>
                 hours_used r = h \<and> consumption_kwh r = power_watts a * h / 1000"
    if "a \<in> set (appliance_table s) \<and> frm ''date'' = Some d \<and>
            form_hours py_float frm (app_id a) = Some h \<and> h > 0 \<and>
            daily_input_post py_float now frm s = Inr (s', resp)"
    for now frm d a h s' resp
    using that daily_input_post_stored [OF ok, of a frm d py_float h now s' resp] by blast
  ultimately show ?thesis by blast
qed

theorem consumption_kwh_from_power_and_hours_witness:
  "reachable sample_float fridge_store \<and>
   daily_input_post sample_float 20 june1_form fridge_store =
     Inr (june_store, Redirect ''daily_input'') \<and>
   (\<exists>r. filter (\<lambda>x. date x = ''2024-06-01'' \<and> appliance_id x = 1)
           (daily_consumption_table june_store) = [r] \<and>
        hours_used r = 5 \<and> consumption_kwh r = 0.75)"
proof -
  let ?a = "\<lparr>app_id = 1, name = ''Fridge'', power_watts = 150, app_created_at = 10\<rparr>"
  have pre: "?a \<in> set (appliance_table fridge_store) \<and> june1_form ''date'' = Some ''2024-06-01'' \<and>
      form_hours sample_float june1_form (app_id ?a) = Some 5 \<and> (5::real) > 0 \<and>
      daily_input_post sample_float 20 june1_form fridge_store =
        Inr (june_store, Redirect ''daily_input'')"
    by (simp add: june_post) (simp add: fridge_store_eq june1_form_def run_simps)
  from consumption_kwh_from_power_and_hours [OF reachable_fridge_store] pre
  have "\<exists>r. filter (\<lambda>x. date x = ''2024-06-01'' \<and> appliance_id x = app_id ?a)
           (daily_consumption_table june_store) = [r] \<and>
        hours_used r = 5 \<and> consumption_kwh r = power_watts ?a * 5 / 1000"
    by blast
  then have "\<exists>r. filter (\<lambda>x. date x = ''2024-06-01'' \<and> appliance_id x = 1)
           (daily_consumption_table june_store) = [r] \<and>
        hours_used r = 5 \<and> consumption_kwh r = 0.75"
    by simp
  with reachable_fridge_store june_post show ?thesis by blast
qed

lemma daily_input_post_twice:
  assumes ok: "store_ok s" and run: "daily_input_post py_float t1 frm s = Inr (s1, resp1)"
  shows "daily_input_post py_float t2 frm s1 = Inr (s1, resp1)"
proof (cases "appliance_table s = []")
  case True
  with run have "s1 = s" "resp1 = Redirect ''appliance_setup''"
    by (simp_all add: daily_input_post_def)
  with True show ?thesis by (simp add: daily_input_post_def)
next
  case False
  with run obtain d where d: "frm ''date'' = Some d"
    by (cases "frm ''date''") (auto simp: daily_input_post_def)
  with run False have "resp1 = Redirect ''daily_input''"
    by (auto simp: daily_input_post_def split: sum.splits)
  with daily_input_post_again [OF ok d False run] show ?thesis by simp
qed

text \<open>
  C2. In every store the application reaches, no two DailyConsumption rows have the same
  date and appliance. And when a daily-input submission is accepted and the same form is
  submitted again, the second submission is accepted too and leaves the store exactly as
  the first left it: for an appliance and a date for which the form logs \<open>h > 0\<close> hours
  there is one row, not two, and its hours_used and consumption_kwh are those of the
  submission.
\<close>

theorem daily_input_upsert_idempotent:
  assumes "reachable py_float s"
  shows "distinct (map (\<lambda>r. (date r, appliance_id r)) (daily_consumption_table s)) \<and>
         (\<forall>t1 t2 frm s1 resp1.
            daily_input_post py_float t1 frm s = Inr (s1, resp1) \<longrightarrow>
            daily_input_post py_float t2 frm s1 = Inr (s1, resp1) \<and>
            (\<forall>d a h.
               a \<in> set (appliance_table s) \<and> frm ''date'' = Some d \<and>
               form_hours py_float frm (app_id a) = Some h \<and> h > 0 \<longrightarrow>
               (\<exists>r. filter (\<lambda>x. date x = d \<and> appliance_id x = app_id a)
                       (daily_consumption_table s1) = [r] \<and>
                    hours_used r = h \<and> consumption_kwh r = power_watts a * h / 1000)))"
proof -
  from assms have ok: "store_ok s" by (rule reachable_ok)
  then have "distinct (map row_key (daily_consumption_table s))"
    by (simp add: store_ok_def rows_ok_def)
  moreover have "row_key = (\<lambda>r. (date r, appliance_id r))"
    by (rule ext) (simp add: row_key_def)
  ultimately have one: "distinct (map (\<lambda>r. (date r, appliance_id r)) (daily_consumption_table s))"
    by simp
  have two: "daily_input_post py_float t2 frm s1 = Inr (s1, resp1) \<and>
            (\<forall>d a h.
               a \<in> set (appliance_table s) \<and> frm ''date'' = Some d \<and>
               form_hours py_float frm (app_id a) = Some h \<and> h > 0 \<longrightarrow>
               (\<exists>r. filter (\<lambda>x. date x = d \<and> appliance_id x = app_id a)
                       (daily_consumption_table s1) = [r] \<and>
                    hours_used r = h \<and> consumption_kwh r = power_watts a * h / 1000))"
    if run: "daily_input_post py_float t1 frm s = Inr (s1, resp1)"
    for t1 t2 frm s1 resp1
  proof -
    have "\<exists>r. filter (\<lambda>x. date x = d \<and> appliance_id x = app_id a)
                    (daily_consumption_table s1) = [r] \<and>
                 hours_used r = h \<and> consumption_kwh r = power_watts a * h / 1000"
      if "a \<in> set (appliance_table s) \<and> frm ''date'' = Some d \<and>
               form_hours py_float frm (app_id a) = Some h \<and> h > 0" for d a h
      using that run daily_input_post_stored [OF ok, of a frm d py_float h t1 s1 resp1]
      by blast
    with daily_input_post_twice [OF ok run, of t2] show ?thesis by blast
  qed
  from one two show ?thesis by blast
qed

theorem daily_input_upsert_idempotent_witness:
  "reachable sample_float fridge_store \<and>
   daily_input_post sample_float 20 june1_form fridge_store =
     Inr (june_store, Redirect ''daily_input'') \<and>
   daily_input_post sample_float 21 june1_form june_store =
     Inr (june_store, Redirect ''daily_input'') \<and>
   length (filter (\<lambda>x. date x = ''2024-06-01'' \<and> appliance_id x = 1)
             (daily_consumption_table june_store)) = 1"
proof -
  let ?a = "\<lparr>app_id = 1, name = ''Fridge'', power_watts = 150, app_created_at = 10\<rparr>"
  have pre: "?a \<in> set (appliance_table fridge_store) \<and> june1_form ''date'' = Some ''2024-06-01'' \<and>
      form_hours sample_float june1_form (app_id ?a) = Some 5 \<and> (5::real) > 0"
    by (simp add: fridge_store_eq june1_form_def run_simps)
  from daily_input_upsert_idempotent [OF reachable_fridge_store] june_post
  have both: "daily_input_post sample_float 21 june1_form june_store =
          Inr (june_store, Redirect ''daily_input'') \<and>
        (\<forall>d a h.
               a \<in> set (appliance_table fridge_store) \<and> june1_form ''date'' = Some d \<and>
               form_hours sample_float june1_form (app_id a) = Some h \<and> h > 0 \<longrightarrow>
               (\<exists>r. filter (\<lambda>x. date x = d \<and> appliance_id x = app_id a)
                       (daily_consumption_table june_store) = [r] \<and>
                    hours_used r = h \<and> consumption_kwh r = power_watts a * h / 1000))"
    by blast
  with pre have "\<exists>r. filter (\<lambda>x. date x = ''2024-06-01'' \<and> appliance_id x = app_id ?a)
           (daily_consumption_table june_store) = [r] \<and>
        hours_used r = 5 \<and> consumption_kwh r = power_watts ?a * 5 / 1000"
    by blast
  then have "length (filter (\<lambda>x. date x = ''2024-06-01'' \<and> appliance_id x = 1)
             (daily_consumption_table june_store)) = 1"
    by auto
  with both reachable_fridge_store june_post show ?thesis by blast
qed

text \<open>
  C9. In every store the application reaches, a POST to daily_input whose hours field for
  an appliance is absent, or reads as a number that is zero or negative, leaves the rows
  of that appliance as they were, whatever the request does otherwise: none is added,
  none is removed, and each keeps its hours_used and consumption_kwh.
\<close>

theorem daily_input_skips_nonpositive_hours:
  assumes "reachable py_float s"
    and "frm (hours_key i) = None \<or>
         (\<exists>txt h. frm (hours_key i) = Some txt \<and> py_float txt = Some h \<and> h \<le> 0)"
  shows "filter (\<lambda>r. appliance_id r = i)
           (daily_consumption_table (store_after s (daily_input_post py_float now frm s))) =
         filter (\<lambda>r. appliance_id r = i) (daily_consumption_table s)"
proof (cases "daily_input_post py_float now frm s")
  case (Inl e)
  then show ?thesis by (simp add: store_after_def)
next
  case (Inr p)
  from assms(2) obtain h where h: "form_hours py_float frm i = Some h" "h \<le> 0"
    by (auto simp: form_hours_def)
  from assms(1) have ok: "store_ok s" by (rule reachable_ok)
  show ?thesis
  proof (cases "appliance_table s = []")
    case True
    with Inr have "p = (s, Redirect ''appliance_setup'')" by (simp add: daily_input_post_def)
    with Inr show ?thesis by (simp add: store_after_def)
  next
    case False
    with Inr obtain d dcs' where
      run: "daily_input_loop py_float now frm d (appliance_table s) (daily_consumption_table s) =
              Inr dcs'"
      and p: "p = (s\<lparr>daily_consumption_table := dcs'\<rparr>, Redirect ''daily_input'')"
      by (auto simp: daily_input_post_def split: option.splits sum.splits)
    from ok have rows: "rows_ok (appliance_table s) (daily_consumption_table s)"
      by (simp add: store_ok_def)
    from h have "\<forall>a \<in> set (appliance_table s). snd (d, app_id a) = i \<longrightarrow>
           (\<forall>h. form_hours py_float frm (app_id a) = Some h \<longrightarrow> h \<le> 0)" by auto
    from daily_input_loop_frame [where P = "\<lambda>k. snd k = i", OF subset_refl rows this run]
    have "filter (\<lambda>r. appliance_id r = i) dcs' =
          filter (\<lambda>r. appliance_id r = i) (daily_consumption_table s)"
      by (simp add: row_key_def)
    with Inr p show ?thesis by (simp add: store_after_def)
  qed
qed

theorem daily_input_skips_nonpositive_hours_witness:
  "reachable sample_float june_store \<and>
   june1_zero_form (hours_key 1) = Some ''0'' \<and> sample_float ''0'' = Some 0 \<and>
   filter (\<lambda>r. appliance_id r = 1)
     (daily_consumption_table
        (store_after june_store (daily_input_post sample_float 60 june1_zero_form june_store))) =
     [\<lparr>dc_id = 1, date = ''2024-06-01'', appliance_id = 1, hours_used = 5,
       consumption_kwh = 0.75, dc_created_at = 20\<rparr>]"
proof -
  have a: "june1_zero_form (hours_key 1) = Some ''0''" and b: "sample_float ''0'' = Some 0"
    by (simp_all add: june1_zero_form_def run_simps)
  then have "june1_zero_form (hours_key 1) = None \<or>
         (\<exists>txt h. june1_zero_form (hours_key 1) = Some txt \<and> sample_float txt = Some h \<and> h \<le> 0)"
    by simp
  from daily_input_skips_nonpositive_hours
    [where frm = june1_zero_form and i = 1 and now = 60, OF reachable_june_store this]
  have "filter (\<lambda>r. appliance_id r = 1)
     (daily_consumption_table
        (store_after june_store (daily_input_post sample_float 60 june1_zero_form june_store))) =
     filter (\<lambda>r. appliance_id r = 1) (daily_consumption_table june_store)" .
  also have "\<dots> = [\<lparr>dc_id = 1, date = ''2024-06-01'', appliance_id = 1, hours_used = 5,
       consumption_kwh = 0.75, dc_created_at = 20\<rparr>]"
    by (simp add: june_store_eq)
  finally show ?thesis using a b reachable_june_store by blast
qed

subsection \<open>The dictionaries of the report handlers\<close>

lemma appliance_map_of_Some:
  assumes "appliance_map_of apps i = Some a"
  shows "a \<in> set apps \<and> app_id a = i"
proof -
  from assms have "(i, a) \<in> set (rev (map (\<lambda>a. (app_id a, a)) apps))"
    unfolding appliance_map_of_def by (rule map_of_SomeD)
  then show ?thesis by auto
qed

lemma appliance_map_of_mem:
  assumes "i \<in> app_id ` set apps"
  shows "\<exists>a. appliance_map_of apps i = Some a"
proof -
  have "fst ` set (rev (map (\<lambda>a. (app_id a, a)) apps)) = app_id ` set apps"
    by (simp add: image_image)
  with assms have "appliance_map_of apps i \<noteq> None"
    unfolding appliance_map_of_def by (simp only: map_of_eq_None_iff not_not)
  then show ?thesis by auto
qed

lemma update_values: "snd ` set (AList.update k v al) \<subseteq> insert v (snd ` set al)"
  by (induction al) auto

lemma update_same_keys:
  assumes "map_of al k = Some t"
  shows "map fst (AList.update k v al) = map fst al"
  using assms by (induction al) (auto split: if_splits)

lemma update_sum:
  fixes al :: "('k \<times> real) list"
  assumes "map_of al k = Some t"
  shows "sum_list (map snd (AList.update k v al)) = sum_list (map snd al) - t + v"
  using assms by (induction al) (auto split: if_splits)

lemma totals_init_keys:
  "fst ` set (fold (\<lambda>a d. AList.update (name a) (0::real) d) apps init) =
     fst ` set init \<union> name ` set apps"
  by (induction apps arbitrary: init) (auto simp: dom_update)

lemma totals_init_values:
  assumes "\<forall>v \<in> snd ` set init. v = (0::real)"
  shows "\<forall>v \<in> snd ` set (fold (\<lambda>a d. AList.update (name a) 0 d) apps init). v = 0"
  using assms
proof (induction apps arbitrary: init)
  case Nil
  then show ?case by simp
next
  case (Cons a apps)
  from Cons.prems update_values [of "name a" 0 init]
  have "\<forall>v \<in> snd ` set (AList.update (name a) 0 init). v = (0::real)" by blast
  from Cons.IH [OF this] show ?case by simp
qed

lemma sum_list_zeros:
  fixes xs :: "real list"
  assumes "\<forall>x \<in> set xs. x = 0"
  shows "sum_list xs = 0"
  using assms by (induction xs) auto

lemma totals_init_zero:
  "sum_list (map snd (fold (\<lambda>a d. AList.update (name a) (0::real) d) apps [])) = 0"
proof -
  have "\<forall>v \<in> snd ` set (fold (\<lambda>a d. AList.update (name a) (0::real) d) apps []). v = 0"
    by (rule totals_init_values) simp
  then show ?thesis by (intro sum_list_zeros) simp
qed

lemma totals_init_lookup:
  assumes "a \<in> set apps"
  shows "map_of (fold (\<lambda>a d. AList.update (name a) (0::real) d) apps []) (name a) = Some 0"
proof -
  let ?t = "fold (\<lambda>a d. AList.update (name a) (0::real) d) apps []"
  from assms have "name a \<in> fst ` set ?t" by (simp add: totals_init_keys)
  then obtain v where v: "map_of ?t (name a) = Some v"
    by (cases "map_of ?t (name a)") (simp_all add: map_of_eq_None_iff)
  then have "(name a, v) \<in> set ?t" by (rule map_of_SomeD)
  then have "v \<in> snd ` set ?t" by (metis imageI snd_conv)
  moreover have "\<forall>v \<in> snd ` set ?t. v = 0" by (rule totals_init_values) simp
  ultimately have "v = 0" by blast
  with v show ?thesis by simp
qed

lemma set_iter_distinct: "distinct (set_iter rank xs)"
  by (simp add: set_iter_def)

lemma set_iter_set: "set (set_iter rank xs) = set xs"
  by (simp add: set_iter_def)

subsection \<open>The loops of the report handlers\<close>

lemma monthly_day_loop_error:
  assumes "monthly_day_loop amap rows st = Inl e"
  shows "e = KeyError"
  using assms
  by (induction amap rows st rule: monthly_day_loop.induct)
     (auto split: option.splits if_splits simp: Let_def)

lemma monthly_dates_loop_error:
  assumes "monthly_dates_loop amap rows ds st = Inl e"
  shows "e = KeyError"
  using assms
  by (induction amap rows ds st rule: monthly_dates_loop.induct)
     (auto split: sum.splits dest: monthly_day_loop_error)

lemma monthly_day_loop_runs:
  assumes "\<forall>dc \<in> set rows. \<exists>a. amap (appliance_id dc) = Some a \<and> name a \<in> fst ` set tot"
  shows "\<exists>tot' mx' nm'.
           monthly_day_loop amap rows (tot, mx, nm) = Inr (tot', mx', nm') \<and>
           map fst tot' = map fst tot \<and>
           sum_list (map snd tot') = sum_list (map snd tot) + sum_list (map consumption_kwh rows) \<and>
           analysis_day_loop amap rows (mx, nm) = Inr (mx', nm')"
  using assms
proof (induction rows arbitrary: tot mx nm)
  case Nil
  then show ?case by simp
next
  case (Cons dc rows)
  from Cons.prems obtain a where a: "amap (appliance_id dc) = Some a"
    and key: "name a \<in> fst ` set tot" by auto
  from key obtain t where t: "map_of tot (name a) = Some t"
    by (cases "map_of tot (name a)") (simp_all add: map_of_eq_None_iff)
  define tot1 where "tot1 = AList.update (name a) (t + consumption_kwh dc) tot"
  have keys1: "map fst tot1 = map fst tot"
    unfolding tot1_def using t by (rule update_same_keys)
  have sum1: "sum_list (map snd tot1) = sum_list (map snd tot) + consumption_kwh dc"
    unfolding tot1_def using update_sum [OF t] by simp
  from keys1 have "fst ` set tot1 = fst ` set tot" by (metis set_map)
  with Cons.prems
  have rest: "\<forall>dc \<in> set rows. \<exists>a. amap (appliance_id dc) = Some a \<and> name a \<in> fst ` set tot1"
    by simp
  show ?case
  proof (cases "consumption_kwh dc > mx")
    case True
    from Cons.IH [OF rest, of "consumption_kwh dc" "name a"] obtain tot' mx' nm' where
      "monthly_day_loop amap rows (tot1, consumption_kwh dc, name a) = Inr (tot', mx', nm')"
      "map fst tot' = map fst tot1"
      "sum_list (map snd tot') = sum_list (map snd tot1) + sum_list (map consumption_kwh rows)"
      "analysis_day_loop amap rows (consumption_kwh dc, name a) = Inr (mx', nm')"
      by blast
    with True a t keys1 sum1 show ?thesis by (simp add: tot1_def)
  next
    case False
    from Cons.IH [OF rest, of mx nm] obtain tot' mx' nm' where
      "monthly_day_loop amap rows (tot1, mx, nm) = Inr (tot', mx', nm')"
      "map fst tot' = map fst tot1"
      "sum_list (map snd tot') = sum_list (map snd tot1) + sum_list (map consumption_kwh rows)"
      "analysis_day_loop amap rows (mx, nm) = Inr (mx', nm')"
      by blast
    with False a t keys1 sum1 show ?thesis by (simp add: tot1_def)
  qed
qed

lemma monthly_dates_loop_runs:
  assumes "\<forall>dc \<in> set rows. \<exists>a. amap (appliance_id dc) = Some a \<and> name a \<in> fst ` set tot"
  shows "\<exists>tot' dmc'.
           monthly_dates_loop amap rows ds (tot, dmc) = Inr (tot', dmc') \<and>
           map fst tot' = map fst tot \<and>
           sum_list (map snd tot') =
             sum_list (map snd tot) +
             sum_list (map (\<lambda>d. sum_list (map consumption_kwh (filter (\<lambda>dc. date dc = d) rows))) ds) \<and>
           analysis_dates_loop amap rows ds dmc = Inr dmc'"
  using assms
proof (induction ds arbitrary: tot dmc)
  case Nil
  then show ?case by simp
next
  case (Cons d ds)
  let ?day = "filter (\<lambda>dc. date dc = d) rows"
  from Cons.prems
  have "\<forall>dc \<in> set ?day. \<exists>a. amap (appliance_id dc) = Some a \<and> name a \<in> fst ` set tot"
    by simp
  from monthly_day_loop_runs [OF this, of 0 "''''"] obtain tot1 mx nm where
    day: "monthly_day_loop amap ?day (tot, 0, '''') = Inr (tot1, mx, nm)"
    and keys1: "map fst tot1 = map fst tot"
    and sum1: "sum_list (map snd tot1) = sum_list (map snd tot) + sum_list (map consumption_kwh ?day)"
    and aday: "analysis_day_loop amap ?day (0, '''') = Inr (mx, nm)"
    by blast
  from keys1 have "fst ` set tot1 = fst ` set tot" by (metis set_map)
  with Cons.prems
  have rest: "\<forall>dc \<in> set rows. \<exists>a. amap (appliance_id dc) = Some a \<and> name a \<in> fst ` set tot1"
    by simp
  from Cons.IH [OF rest, of "AList.update d (nm, mx) dmc"] obtain tot' dmc' where
    "monthly_dates_loop amap rows ds (tot1, AList.update d (nm, mx) dmc) = Inr (tot', dmc')"
    "map fst tot' = map fst tot1"
    "sum_list (map snd tot') =
       sum_list (map snd tot1) +
       sum_list (map (\<lambda>d. sum_list (map consumption_kwh (filter (\<lambda>dc. date dc = d) rows))) ds)"
    "analysis_dates_loop amap rows ds (AList.update d (nm, mx) dmc) = Inr dmc'"
    by blast
  with day keys1 sum1 aday show ?case by simp
qed

lemma sum_list_filter_split:
  fixes f :: "'a \<Rightarrow> real"
  shows "sum_list (map f (filter P xs)) + sum_list (map f (filter (\<lambda>x. \<not> P x) xs)) =
         sum_list (map f xs)"
  by (induction xs) auto

lemma sum_list_by_key:
  fixes f :: "'a \<Rightarrow> real"
  assumes "distinct ds" and "g ` set xs \<subseteq> set ds"
  shows "sum_list (map (\<lambda>d. sum_list (map f (filter (\<lambda>x. g x = d) xs))) ds) =
         sum_list (map f xs)"
  using assms
proof (induction ds arbitrary: xs)
  case Nil
  then show ?case by simp
next
  case (Cons d ds)
  define ys where "ys = filter (\<lambda>x. g x \<noteq> d) xs"
  from Cons.prems have d: "d \<notin> set ds" and dist: "distinct ds" by auto
  from Cons.prems(2) have sub: "g ` set ys \<subseteq> set ds" by (auto simp: ys_def)
  have same: "filter (\<lambda>x. g x = d') xs = filter (\<lambda>x. g x = d') ys" if "d' \<in> set ds" for d'
  proof -
    from that d have "d' \<noteq> d" by auto
    then have "(\<lambda>x. g x \<noteq> d \<and> g x = d') = (\<lambda>x. g x = d')" by auto
    then show ?thesis by (simp add: ys_def)
  qed
  have "map (\<lambda>d. sum_list (map f (filter (\<lambda>x. g x = d) xs))) ds =
        map (\<lambda>d. sum_list (map f (filter (\<lambda>x. g x = d) ys))) ds"
    by (rule map_cong) (simp_all add: same)
  then have "sum_list (map (\<lambda>d. sum_list (map f (filter (\<lambda>x. g x = d) xs))) ds) =
             sum_list (map (\<lambda>d. sum_list (map f (filter (\<lambda>x. g x = d) ys))) ds)"
    by (simp only:)
  also have "\<dots> = sum_list (map f ys)" by (rule Cons.IH [OF dist sub])
  finally have "sum_list (map (\<lambda>d. sum_list (map f (filter (\<lambda>x. g x = d) xs))) ds) =
        sum_list (map f ys)" .
  moreover have "sum_list (map f (filter (\<lambda>x. g x = d) xs)) + sum_list (map f ys) =
                 sum_list (map f xs)"
    unfolding ys_def by (rule sum_list_filter_split)
  ultimately show ?case by simp
qed

lemma analysis_day_loop_result:
  assumes "analysis_day_loop amap rows (mx0, nm0) = Inr (mx, nm)"
  shows "((\<forall>x \<in> set rows. consumption_kwh x \<le> mx0) \<and> mx = mx0 \<and> nm = nm0) \<or>
         (\<exists>pre r post a.
            rows = pre @ r # post \<and>
            (\<forall>x \<in> set pre. consumption_kwh x < consumption_kwh r) \<and>
            (\<forall>x \<in> set post. consumption_kwh x \<le> consumption_kwh r) \<and>
            mx0 < consumption_kwh r \<and> mx = consumption_kwh r \<and>
            amap (appliance_id r) = Some a \<and> nm = name a)"
  using assms
proof (induction rows arbitrary: mx0 nm0)
  case Nil
  then show ?case by simp
next
  case (Cons dc rows)
  from Cons.prems obtain a where a: "amap (appliance_id dc) = Some a"
    by (cases "amap (appliance_id dc)") auto
  show ?case
  proof (cases "consumption_kwh dc > mx0")
    case True
    with a Cons.prems
    have run: "analysis_day_loop amap rows (consumption_kwh dc, name a) = Inr (mx, nm)" by simp
    from Cons.IH [OF run] show ?thesis
    proof
      assume "(\<forall>x \<in> set rows. consumption_kwh x \<le> consumption_kwh dc) \<and>
              mx = consumption_kwh dc \<and> nm = name a"
      with True a have "dc # rows = [] @ dc # rows \<and>
            (\<forall>x \<in> set []. consumption_kwh x < consumption_kwh dc) \<and>
            (\<forall>x \<in> set rows. consumption_kwh x \<le> consumption_kwh dc) \<and>
            mx0 < consumption_kwh dc \<and> mx = consumption_kwh dc \<and>
            amap (appliance_id dc) = Some a \<and> nm = name a"
        by simp
      then show ?thesis by blast
    next
      assume "\<exists>pre r post b.
            rows = pre @ r # post \<and>
            (\<forall>x \<in> set pre. consumption_kwh x < consumption_kwh r) \<and>
            (\<forall>x \<in> set post. consumption_kwh x \<le> consumption_kwh r) \<and>
            consumption_kwh dc < consumption_kwh r \<and> mx = consumption_kwh r \<and>
            amap (appliance_id r) = Some b \<and> nm = name b"
      then obtain pre r post b where
        "rows = pre @ r # post"
        "\<forall>x \<in> set pre. consumption_kwh x < consumption_kwh r"
        "\<forall>x \<in> set post. consumption_kwh x \<le> consumption_kwh r"
        "consumption_kwh dc < consumption_kwh r" "mx = consumption_kwh r"
        "amap (appliance_id r) = Some b" "nm = name b"
        by blast
      with True have "dc # rows = (dc # pre) @ r # post \<and>
            (\<forall>x \<in> set (dc # pre). consumption_kwh x < consumption_kwh r) \<and>
            (\<forall>x \<in> set post. consumption_kwh x \<le> consumption_kwh r) \<and>
            mx0 < consumption_kwh r \<and> mx = consumption_kwh r \<and>
            amap (appliance_id r) = Some b \<and> nm = name b"
        by simp
      then show ?thesis by blast
    qed
  next
    case False
    with a Cons.prems
    have run: "analysis_day_loop amap rows (mx0, nm0) = Inr (mx, nm)" by simp
    from Cons.IH [OF run] show ?thesis
    proof
      assume "(\<forall>x \<in> set rows. consumption_kwh x \<le> mx0) \<and> mx = mx0 \<and> nm = nm0"
      with False show ?thesis by simp
    next
      assume "\<exists>pre r post b.
            rows = pre @ r # post \<and>
            (\<forall>x \<in> set pre. consumption_kwh x < consumption_kwh r) \<and>
            (\<forall>x \<in> set post. consumption_kwh x \<le> consumption_kwh r) \<and>
            mx0 < consumption_kwh r \<and> mx = consumption_kwh r \<and>
            amap (appliance_id r) = Some b \<and> nm = name b"
      then obtain pre r post b where
        "rows = pre @ r # post"
        "\<forall>x \<in> set pre. consumption_kwh x < consumption_kwh r"
        "\<forall>x \<in> set post. consumption_kwh x \<le> consumption_kwh r"
        "mx0 < consumption_kwh r" "mx = consumption_kwh r"
        "amap (appliance_id r) = Some b" "nm = name b"
        by blast
      with False have "dc # rows = (dc # pre) @ r # post \<and>
            (\<forall>x \<in> set (dc # pre). consumption_kwh x < consumption_kwh r) \<and>
            (\<forall>x \<in> set post. consumption_kwh x \<le> consumption_kwh r) \<and>
            mx0 < consumption_kwh r \<and> mx = consumption_kwh r \<and>
            amap (appliance_id r) = Some b \<and> nm = name b"
        by simp
      then show ?thesis by blast
    qed
  qed
qed

lemma find_first_hit:
  assumes "\<forall>x \<in> set pre. \<not> P x" and "P r"
  shows "find P (pre @ r # post) = Some r"
  using assms by (induction pre) auto

lemma first_greatest_split:
  assumes "rows = pre @ r # post"
    and "\<forall>x \<in> set pre. consumption_kwh x < consumption_kwh r"
    and "\<forall>x \<in> set post. consumption_kwh x \<le> consumption_kwh r"
  shows "first_greatest rows = Some r"
proof -
  let ?P = "\<lambda>y. \<forall>x \<in> set rows. consumption_kwh x \<le> consumption_kwh y"
  from assms have "?P r" by auto
  moreover have "\<forall>x \<in> set pre. \<not> ?P x"
  proof
    fix x assume "x \<in> set pre"
    with assms(2) have "consumption_kwh x < consumption_kwh r" by simp
    moreover from assms(1) have "r \<in> set rows" by simp
    ultimately show "\<not> ?P x" by (auto simp: not_le intro: bexI [of _ r])
  qed
  ultimately have "find ?P (pre @ r # post) = Some r" by (rule find_first_hit [rotated])
  with assms(1) show ?thesis by (simp add: first_greatest_def)
qed

lemma first_greatest_exists:
  assumes "rows \<noteq> []"
  shows "\<exists>r \<in> set rows. first_greatest rows = Some r"
proof -
  let ?P = "\<lambda>y. \<forall>x \<in> set rows. consumption_kwh x \<le> consumption_kwh y"
  from assms have "Max (consumption_kwh ` set rows) \<in> consumption_kwh ` set rows"
    by (intro Max_in) simp_all
  then obtain m where m: "m \<in> set rows"
    "consumption_kwh m = Max (consumption_kwh ` set rows)" by auto
  then have "?P m" by simp
  with m(1) have "find ?P rows \<noteq> None" by (auto simp: find_None_iff)
  then obtain r where r: "find ?P rows = Some r" by auto
  then have "r \<in> set rows" by (auto simp: find_Some_iff)
  with r show ?thesis by (simp add: first_greatest_def)
qed

lemma analysis_day_loop_first_greatest:
  assumes run: "analysis_day_loop amap rows (0, '''') = Inr (mx, nm)"
    and fg: "first_greatest rows = Some r" and pos: "consumption_kwh r > 0"
  shows "\<exists>a. amap (appliance_id r) = Some a \<and> nm = name a \<and> mx = consumption_kwh r"
proof -
  from fg have r_in: "r \<in> set rows" by (auto simp: first_greatest_def find_Some_iff)
  from analysis_day_loop_result [OF run] show ?thesis
  proof
    assume "(\<forall>x \<in> set rows. consumption_kwh x \<le> 0) \<and> mx = 0 \<and> nm = ''''"
    with r_in pos show ?thesis by auto
  next
    assume "\<exists>pre r' post a.
            rows = pre @ r' # post \<and>
            (\<forall>x \<in> set pre. consumption_kwh x < consumption_kwh r') \<and>
            (\<forall>x \<in> set post. consumption_kwh x \<le> consumption_kwh r') \<and>
            0 < consumption_kwh r' \<and> mx = consumption_kwh r' \<and>
            amap (appliance_id r') = Some a \<and> nm = name a"
    then obtain pre r' post a where split: "rows = pre @ r' # post"
      "\<forall>x \<in> set pre. consumption_kwh x < consumption_kwh r'"
      "\<forall>x \<in> set post. consumption_kwh x \<le> consumption_kwh r'"
      and res: "mx = consumption_kwh r'" "amap (appliance_id r') = Some a" "nm = name a"
      by blast
    from first_greatest_split [OF split] fg have "r' = r" by simp
    with res show ?thesis by simp
  qed
qed

lemma analysis_dates_loop_lookup:
  assumes "analysis_dates_loop amap rows ds dmc0 = Inr dmc"
  shows "(d \<notin> set ds \<longrightarrow> map_of dmc d = map_of dmc0 d) \<and>
         (d \<in> set ds \<longrightarrow>
            (\<exists>mx nm. analysis_day_loop amap (filter (\<lambda>dc. date dc = d) rows) (0, '''') =
                        Inr (mx, nm) \<and>
                     map_of dmc d = Some (nm, mx)))"
  using assms
proof (induction ds arbitrary: dmc0)
  case Nil
  then show ?case by simp
next
  case (Cons d' ds)
  from Cons.prems obtain mx nm where
    day: "analysis_day_loop amap (filter (\<lambda>dc. date dc = d') rows) (0, '''') = Inr (mx, nm)"
    and rest: "analysis_dates_loop amap rows ds (AList.update d' (nm, mx) dmc0) = Inr dmc"
    by (auto split: sum.splits)
  note ih = Cons.IH [OF rest]
  show ?case
  proof (cases "d \<in> set ds")
    case True
    with ih show ?thesis by simp
  next
    case False
    with ih have "map_of dmc d = map_of (AList.update d' (nm, mx) dmc0) d" by simp
    then have eq: "map_of dmc d = ((map_of dmc0)(d' \<mapsto> (nm, mx))) d"
      by (simp only: update_conv')
    show ?thesis
    proof (cases "d = d'")
      case True
      with eq day show ?thesis by auto
    next
      case False
      with eq \<open>d \<notin> set ds\<close> show ?thesis by simp
    qed
  qed
qed

lemma analysis_dates_loop_keys:
  assumes "analysis_dates_loop amap rows ds dmc0 = Inr dmc"
  shows "fst ` set dmc = fst ` set dmc0 \<union> set ds"
  using assms
proof (induction ds arbitrary: dmc0)
  case Nil
  then show ?case by simp
next
  case (Cons d' ds)
  from Cons.prems obtain mx nm where
    rest: "analysis_dates_loop amap rows ds (AList.update d' (nm, mx) dmc0) = Inr dmc"
    by (auto split: sum.splits)
  from Cons.IH [OF rest] show ?case by (auto simp: dom_update)
qed

subsection \<open>The report handlers on a well-formed store\<close>

lemma month_rows_resolvable:
  assumes "store_ok s"
  shows "\<forall>dc \<in> set (month_rows month s).
           \<exists>a. appliance_map_of (appliance_table s) (appliance_id dc) = Some a \<and>
               name a \<in> fst ` set (fold (\<lambda>a d. AList.update (name a) (0::real) d)
                                        (appliance_table s) [])"
proof
  fix dc assume "dc \<in> set (month_rows month s)"
  then have "dc \<in> set (daily_consumption_table s)" by (simp add: month_rows_def)
  with assms obtain b where "b \<in> set (appliance_table s)" "app_id b = appliance_id dc"
    unfolding store_ok_def rows_ok_def by blast
  then have "appliance_id dc \<in> app_id ` set (appliance_table s)" by (metis imageI)
  from appliance_map_of_mem [OF this] obtain a where
    a: "appliance_map_of (appliance_table s) (appliance_id dc) = Some a" by blast
  from appliance_map_of_Some [OF a] have "a \<in> set (appliance_table s)" by simp
  then have "name a \<in> fst ` set (fold (\<lambda>a d. AList.update (name a) (0::real) d)
                                        (appliance_table s) [])"
    by (simp add: totals_init_keys)
  with a show "\<exists>a. appliance_map_of (appliance_table s) (appliance_id dc) = Some a \<and>
               name a \<in> fst ` set (fold (\<lambda>a d. AList.update (name a) (0::real) d)
                                        (appliance_table s) [])"
    by blast
qed

lemma monthly_aggregate_ok:
  assumes "store_ok s"
  shows "\<exists>tot dmc.
           monthly_aggregate rank month s =
             Inr (tot, dmc, sum_list (map consumption_kwh (month_rows month s))) \<and>
           analysis_dates_loop (appliance_map_of (appliance_table s)) (month_rows month s)
             (set_iter rank (map date (month_rows month s))) [] = Inr dmc"
proof -
  let ?rows = "month_rows month s"
  let ?ds = "set_iter rank (map date ?rows)"
  let ?tot0 = "fold (\<lambda>a d. AList.update (name a) (0::real) d) (appliance_table s) []"
  from monthly_dates_loop_runs [OF month_rows_resolvable [OF assms], of month ?ds "[]"]
  obtain tot dmc where
    run: "monthly_dates_loop (appliance_map_of (appliance_table s)) ?rows ?ds (?tot0, []) =
            Inr (tot, dmc)"
    and sum: "sum_list (map snd tot) =
       sum_list (map snd ?tot0) +
       sum_list (map (\<lambda>d. sum_list (map consumption_kwh (filter (\<lambda>dc. date dc = d) ?rows))) ?ds)"
    and ana: "analysis_dates_loop (appliance_map_of (appliance_table s)) ?rows ?ds [] = Inr dmc"
    by blast
  have "date ` set ?rows \<subseteq> set ?ds" by (simp add: set_iter_set)
  from sum_list_by_key [OF set_iter_distinct this, of consumption_kwh]
  have "sum_list (map snd tot) = sum_list (map consumption_kwh ?rows)"
    using sum by (simp add: totals_init_zero)
  with run have "monthly_aggregate rank month s =
      Inr (tot, dmc, sum_list (map consumption_kwh ?rows))"
    by (simp add: monthly_aggregate_def)
  with ana show ?thesis by blast
qed

lemma monthly_aggregate_error:
  assumes "monthly_aggregate rank month s = Inl e"
  shows "e = KeyError"
  using assms
  by (auto simp: monthly_aggregate_def Let_def split: sum.splits dest: monthly_dates_loop_error)

lemma monthly_results_unknown_country:
  assumes "map_of COUNTRY_DATA (args_get args ''country'' ''USA'') = None"
  shows "monthly_results rank tm args s = Inl KeyError"
proof (cases "monthly_aggregate rank (args_get args ''month'' tm) s")
  case (Inl e)
  with monthly_aggregate_error [OF Inl] show ?thesis by (simp add: monthly_results_def)
next
  case (Inr p)
  with assms show ?thesis by (simp add: monthly_results_def split: prod.splits)
qed

lemma monthly_results_view:
  assumes agg: "monthly_aggregate rank (args_get args ''month'' tm) s = Inr (tot, dmc, kwh)"
    and entry: "map_of COUNTRY_DATA (args_get args ''country'' ''USA'') = Some entry"
  shows "\<exists>mv. monthly_results rank tm args s = Inr (Render_monthly_results mv) \<and>
           mr_month mv = args_get args ''month'' tm \<and>
           mr_country mv = args_get args ''country'' ''USA'' \<and>
           mr_total_kwh mv = kwh \<and>
           mr_total_cost mv = kwh * cost_per_kwh entry \<and>
           mr_carbon_footprint mv = kwh * 0.5 \<and>
           mr_monthly_totals mv = tot \<and>
           mr_daily_max_consumers mv = dmc"
  using assms by (simp add: monthly_results_def)

lemma daily_analysis_view:
  assumes "analysis_dates_loop (appliance_map_of (appliance_table s))
             (month_rows (args_get args ''month'' tm) s)
             (set_iter rank (map date (month_rows (args_get args ''month'' tm) s))) [] = Inr dmc"
  shows "\<exists>av. daily_analysis rank tm args s = Inr (Render_daily_analysis av) \<and>
           da_month av = args_get args ''month'' tm \<and>
           da_daily_max_consumers av = dmc \<and>
           da_appliance_days av = count_days dmc \<and>
           da_total_days av = length dmc"
  using assms by (simp add: daily_analysis_def Let_def)

lemma find_Some_mem:
  assumes "find P xs = Some x"
  shows "x \<in> set xs \<and> P x"
  using assms by (induction xs) (auto split: if_splits)

lemma dmc_first_greatest:
  assumes run: "analysis_dates_loop (appliance_map_of apps) rows
                  (set_iter rank (map date rows)) [] = Inr dmc"
    and fg: "first_greatest (filter (\<lambda>dc. date dc = d) rows) = Some r"
    and pos: "consumption_kwh r > 0"
  shows "\<exists>a \<in> set apps. app_id a = appliance_id r \<and>
           map_of dmc d = Some (name a, consumption_kwh r)"
proof -
  from fg have "r \<in> set (filter (\<lambda>dc. date dc = d) rows)"
    unfolding first_greatest_def by (rule find_Some_mem [THEN conjunct1])
  then have "r \<in> set rows" "date r = d" by auto
  then have "d \<in> set (set_iter rank (map date rows))"
    by (auto simp: set_iter_set)
  with analysis_dates_loop_lookup [OF run, of d] obtain mx nm where
    day: "analysis_day_loop (appliance_map_of apps) (filter (\<lambda>dc. date dc = d) rows) (0, '''') =
            Inr (mx, nm)"
    and look: "map_of dmc d = Some (nm, mx)" by blast
  from analysis_day_loop_first_greatest [OF day fg pos] obtain a where
    a: "appliance_map_of apps (appliance_id r) = Some a" "nm = name a" "mx = consumption_kwh r"
    by blast
  from appliance_map_of_Some [OF a(1)] have "a \<in> set apps" "app_id a = appliance_id r"
    by simp_all
  with look a show ?thesis by blast
qed

lemma month_rows_june: "month_rows ''2024-06'' june_store = daily_consumption_table june_store"
  by (simp add: month_rows_def june_store_eq ascii_lower_def)

lemma month_rows_home: "month_rows ''2024-06'' home_store = daily_consumption_table home_store"
  by (simp add: month_rows_def home_store_eq ascii_lower_def)

lemma month_rows_off: "month_rows ''2024-06'' off_store = daily_consumption_table off_store"
  by (simp add: month_rows_def off_store_eq ascii_lower_def)

lemma month_rows_july: "month_rows ''2024-07'' june_store = []"
  by (simp add: month_rows_def june_store_eq ascii_lower_def)

subsection \<open>daily_max_consumers\<close>

text \<open>
  C5, as amended. In every store the application reaches, daily_analysis returns its view,
  and monthly_results does for a country of the tariff table; in both views
  daily_max_consumers maps each date that has a row of the month with positive
  consumption to the name of the appliance and the consumption of the row with the
  greatest consumption on that date, the first such row in query order when several
  rows share it.
\<close>

theorem daily_max_consumers_first_greatest:
  assumes "reachable py_float s"
  shows "(\<exists>av. daily_analysis rank tm args s = Inr (Render_daily_analysis av) \<and>
            (\<forall>d. filter (\<lambda>dc. date dc = d) (month_rows (args_get args ''month'' tm) s) \<noteq> [] \<longrightarrow>
               (\<exists>r. first_greatest
                       (filter (\<lambda>dc. date dc = d) (month_rows (args_get args ''month'' tm) s)) =
                       Some r \<and>
                    (consumption_kwh r > 0 \<longrightarrow>
                       (\<exists>a \<in> set (appliance_table s). app_id a = appliance_id r \<and>
                          map_of (da_daily_max_consumers av) d =
                            Some (name a, consumption_kwh r)))))) \<and>
         (map_of COUNTRY_DATA (args_get args ''country'' ''USA'') \<noteq> None \<longrightarrow>
          (\<exists>mv. monthly_results rank tm args s = Inr (Render_monthly_results mv) \<and>
            (\<forall>d. filter (\<lambda>dc. date dc = d) (month_rows (args_get args ''month'' tm) s) \<noteq> [] \<longrightarrow>
               (\<exists>r. first_greatest
                       (filter (\<lambda>dc. date dc = d) (month_rows (args_get args ''month'' tm) s)) =
                       Some r \<and>
                    (consumption_kwh r > 0 \<longrightarrow>
                       (\<exists>a \<in> set (appliance_table s). app_id a = appliance_id r \<and>
                          map_of (mr_daily_max_consumers mv) d =
                            Some (name a, consumption_kwh r)))))))"
proof -
  let ?month = "args_get args ''month'' tm"
  let ?rows = "month_rows ?month s"
  from assms have ok: "store_ok s" by (rule reachable_ok)
  from monthly_aggregate_ok [OF ok, of rank ?month] obtain tot dmc where
    agg: "monthly_aggregate rank ?month s = Inr (tot, dmc, sum_list (map consumption_kwh ?rows))"
    and ana: "analysis_dates_loop (appliance_map_of (appliance_table s)) ?rows
                (set_iter rank (map date ?rows)) [] = Inr dmc"
    by blast
  have main: "\<forall>d. filter (\<lambda>dc. date dc = d) ?rows \<noteq> [] \<longrightarrow>
               (\<exists>r. first_greatest (filter (\<lambda>dc. date dc = d) ?rows) = Some r \<and>
                    (consumption_kwh r > 0 \<longrightarrow>
                       (\<exists>a \<in> set (appliance_table s). app_id a = appliance_id r \<and>
                          map_of dmc d = Some (name a, consumption_kwh r))))"
  proof (intro allI impI)
    fix d assume "filter (\<lambda>dc. date dc = d) ?rows \<noteq> []"
    from first_greatest_exists [OF this] obtain r where
      fg: "first_greatest (filter (\<lambda>dc. date dc = d) ?rows) = Some r" by blast
    have "\<exists>a \<in> set (appliance_table s). app_id a = appliance_id r \<and>
            map_of dmc d = Some (name a, consumption_kwh r)" if "consumption_kwh r > 0"
      using dmc_first_greatest [OF ana fg that] .
    with fg show "\<exists>r. first_greatest (filter (\<lambda>dc. date dc = d) ?rows) = Some r \<and>
                    (consumption_kwh r > 0 \<longrightarrow>
                       (\<exists>a \<in> set (appliance_table s). app_id a = appliance_id r \<and>
                          map_of dmc d = Some (name a, consumption_kwh r)))"
      by blast
  qed
  from daily_analysis_view [OF ana] obtain av where
    av: "daily_analysis rank tm args s = Inr (Render_daily_analysis av)"
    and av_dmc: "da_daily_max_consumers av = dmc" by blast
  from main have "\<forall>d. filter (\<lambda>dc. date dc = d) ?rows \<noteq> [] \<longrightarrow>
               (\<exists>r. first_greatest (filter (\<lambda>dc. date dc = d) ?rows) = Some r \<and>
                    (consumption_kwh r > 0 \<longrightarrow>
                       (\<exists>a \<in> set (appliance_table s). app_id a = appliance_id r \<and>
                          map_of (da_daily_max_consumers av) d =
                            Some (name a, consumption_kwh r))))"
    unfolding av_dmc .
  with av have part1: "\<exists>av. daily_analysis rank tm args s = Inr (Render_daily_analysis av) \<and>
            (\<forall>d. filter (\<lambda>dc. date dc = d) ?rows \<noteq> [] \<longrightarrow>
               (\<exists>r. first_greatest (filter (\<lambda>dc. date dc = d) ?rows) = Some r \<and>
                    (consumption_kwh r > 0 \<longrightarrow>
                       (\<exists>a \<in> set (appliance_table s). app_id a = appliance_id r \<and>
                          map_of (da_daily_max_consumers av) d =
                            Some (name a, consumption_kwh r)))))"
    by (intro exI [of _ av] conjI)
  have part2: "\<exists>mv. monthly_results rank tm args s = Inr (Render_monthly_results mv) \<and>
            (\<forall>d. filter (\<lambda>dc. date dc = d) ?rows \<noteq> [] \<longrightarrow>
               (\<exists>r. first_greatest (filter (\<lambda>dc. date dc = d) ?rows) = Some r \<and>
                    (consumption_kwh r > 0 \<longrightarrow>
                       (\<exists>a \<in> set (appliance_table s). app_id a = appliance_id r \<and>
                          map_of (mr_daily_max_consumers mv) d =
                            Some (name a, consumption_kwh r)))))"
    if "map_of COUNTRY_DATA (args_get args ''country'' ''USA'') \<noteq> None"
  proof -
    from that obtain entry where
      "map_of COUNTRY_DATA (args_get args ''country'' ''USA'') = Some entry" by auto
    from monthly_results_view [OF agg this] obtain mv where
      mv: "monthly_results rank tm args s = Inr (Render_monthly_results mv)"
      and mv_dmc: "mr_daily_max_consumers mv = dmc" by blast
    from main have "\<forall>d. filter (\<lambda>dc. date dc = d) ?rows \<noteq> [] \<longrightarrow>
               (\<exists>r. first_greatest (filter (\<lambda>dc. date dc = d) ?rows) = Some r \<and>
                    (consumption_kwh r > 0 \<longrightarrow>
                       (\<exists>a \<in> set (appliance_table s). app_id a = appliance_id r \<and>
                          map_of (mr_daily_max_consumers mv) d =
                            Some (name a, consumption_kwh r))))"
      unfolding mv_dmc .
    with mv show ?thesis by (intro exI [of _ mv] conjI)
  qed
  from part1 part2 show ?thesis by (intro conjI impI)
qed

theorem daily_max_consumers_first_greatest_witness:
  "reachable sample_float home_store \<and>
   first_greatest (filter (\<lambda>dc. date dc = ''2024-06-02'') (month_rows ''2024-06'' home_store)) =
     Some \<lparr>dc_id = 3, date = ''2024-06-02'', appliance_id = 2, hours_used = 1,
           consumption_kwh = 2, dc_created_at = 40\<rparr> \<and>
   (\<exists>av. daily_analysis length ''2024-06'' Map.empty home_store = Inr (Render_daily_analysis av) \<and>
      map_of (da_daily_max_consumers av) ''2024-06-02'' = Some (''AC'', 2))"
proof -
  let ?rows = "filter (\<lambda>dc. date dc = ''2024-06-02'') (month_rows ''2024-06'' home_store)"
  let ?r = "\<lparr>dc_id = 3, date = ''2024-06-02'', appliance_id = 2, hours_used = 1,
           consumption_kwh = 2::real, dc_created_at = 40\<rparr>"
  have m: "args_get Map.empty ''month'' ''2024-06'' = ''2024-06''" by (simp add: args_get_def)
  have fg: "first_greatest ?rows = Some ?r"
    by (simp add: month_rows_home) (simp add: home_store_eq first_greatest_def)
  then have ne: "?rows \<noteq> []" by (auto simp: first_greatest_def)
  from daily_max_consumers_first_greatest [OF reachable_home_store, of length "''2024-06''" Map.empty]
  obtain av where av: "daily_analysis length ''2024-06'' Map.empty home_store =
      Inr (Render_daily_analysis av)"
    and all: "\<forall>d. filter (\<lambda>dc. date dc = d) (month_rows ''2024-06'' home_store) \<noteq> [] \<longrightarrow>
               (\<exists>r. first_greatest
                       (filter (\<lambda>dc. date dc = d) (month_rows ''2024-06'' home_store)) = Some r \<and>
                    (consumption_kwh r > 0 \<longrightarrow>
                       (\<exists>a \<in> set (appliance_table home_store). app_id a = appliance_id r \<and>
                          map_of (da_daily_max_consumers av) d =
                            Some (name a, consumption_kwh r))))"
    unfolding m by blast
  from all ne fg have "\<exists>a \<in> set (appliance_table home_store). app_id a = appliance_id ?r \<and>
      map_of (da_daily_max_consumers av) ''2024-06-02'' = Some (name a, consumption_kwh ?r)"
    by fastforce
  then have "map_of (da_daily_max_consumers av) ''2024-06-02'' = Some (''AC'', 2)"
    by (auto simp: home_store_eq)
  with av fg reachable_home_store show ?thesis by blast
qed

text \<open>
  The sentence of the specification fails on a day whose greatest consumption is not
  positive: with an appliance of 0 W the only row of 2024-06-01 has consumption 0, and the
  view names no appliance for that date.
\<close>

theorem daily_max_consumers_zero_power_counterexample:
  "first_greatest (filter (\<lambda>dc. date dc = ''2024-06-01'') (month_rows ''2024-06'' off_store)) =
     Some \<lparr>dc_id = 1, date = ''2024-06-01'', appliance_id = 1, hours_used = 5,
           consumption_kwh = 0, dc_created_at = 20\<rparr> \<and>
   appliance_table off_store =
     [\<lparr>app_id = 1, name = ''Off'', power_watts = 0, app_created_at = 10\<rparr>] \<and>
   daily_analysis length ''2024-06'' Map.empty off_store =
     Inr (Render_daily_analysis
       \<lparr>da_month = ''2024-06'', da_daily_max_consumers = [(''2024-06-01'', '''', 0)],
        da_appliance_days = [('''', 1)], da_most_frequent_max = (Some '''', 1),
        da_total_days = 1\<rparr>)"
proof -
  have "first_greatest (filter (\<lambda>dc. date dc = ''2024-06-01'') (month_rows ''2024-06'' off_store)) =
     Some \<lparr>dc_id = 1, date = ''2024-06-01'', appliance_id = 1, hours_used = 5,
           consumption_kwh = 0, dc_created_at = 20\<rparr>"
    by (simp add: month_rows_off) (simp add: off_store_eq first_greatest_def)
  moreover have "appliance_table off_store =
     [\<lparr>app_id = 1, name = ''Off'', power_watts = 0, app_created_at = 10\<rparr>]"
    by (simp add: off_store_eq)
  moreover have "daily_analysis length ''2024-06'' Map.empty off_store =
     Inr (Render_daily_analysis
       \<lparr>da_month = ''2024-06'', da_daily_max_consumers = [(''2024-06-01'', '''', 0)],
        da_appliance_days = [('''', 1)], da_most_frequent_max = (Some '''', 1),
        da_total_days = 1\<rparr>)"
    by (simp add: daily_analysis_def args_get_def month_rows_off)
       (simp add: off_store_eq set_iter_def appliance_map_of_def count_days_def)
  ultimately show ?thesis by blast
qed

subsection \<open>The empty month\<close>

text \<open>
  C7. For a month with no DailyConsumption row, in any store, the aggregation of
  monthly_results returns: monthly_totals has every appliance of the table at 0, the
  total is 0 and daily_max_consumers is empty; the handler then renders that for every
  country of the tariff table. daily_analysis returns the view with no day, no count and
  most_frequent_max = (None, 0).
\<close>

theorem empty_month_yields_zeros:
  assumes "month_rows (args_get args ''month'' tm) s = []"
  shows "(\<exists>tot. monthly_aggregate rank (args_get args ''month'' tm) s = Inr (tot, [], 0) \<and>
            (\<forall>a \<in> set (appliance_table s). map_of tot (name a) = Some 0) \<and>
            (\<forall>entry. map_of COUNTRY_DATA (args_get args ''country'' ''USA'') = Some entry \<longrightarrow>
               (\<exists>mv. monthly_results rank tm args s = Inr (Render_monthly_results mv) \<and>
                     mr_monthly_totals mv = tot \<and> mr_total_kwh mv = 0 \<and>
                     mr_daily_max_consumers mv = [] \<and>
                     mr_total_cost mv = 0 \<and> mr_carbon_footprint mv = 0))) \<and>
         daily_analysis rank tm args s =
           Inr (Render_daily_analysis
             \<lparr>da_month = args_get args ''month'' tm, da_daily_max_consumers = [],
              da_appliance_days = [], da_most_frequent_max = (None, 0), da_total_days = 0\<rparr>)"
proof -
  let ?tot = "fold (\<lambda>a d. AList.update (name a) (0::real) d) (appliance_table s) []"
  have it: "set_iter rank [] = []" by (simp add: set_iter_def)
  from assms have agg: "monthly_aggregate rank (args_get args ''month'' tm) s = Inr (?tot, [], 0)"
    by (simp add: monthly_aggregate_def it totals_init_zero)
  have look: "\<forall>a \<in> set (appliance_table s). map_of ?tot (name a) = Some 0"
    by (simp add: totals_init_lookup)
  have view: "\<exists>mv. monthly_results rank tm args s = Inr (Render_monthly_results mv) \<and>
                     mr_monthly_totals mv = ?tot \<and> mr_total_kwh mv = 0 \<and>
                     mr_daily_max_consumers mv = [] \<and>
                     mr_total_cost mv = 0 \<and> mr_carbon_footprint mv = 0"
    if "map_of COUNTRY_DATA (args_get args ''country'' ''USA'') = Some entry" for entry
    using monthly_results_view [OF agg that] by auto
  from assms have "daily_analysis rank tm args s =
           Inr (Render_daily_analysis
             \<lparr>da_month = args_get args ''month'' tm, da_daily_max_consumers = [],
              da_appliance_days = [], da_most_frequent_max = (None, 0), da_total_days = 0\<rparr>)"
    by (simp add: daily_analysis_def it count_days_def)
  with agg look view show ?thesis by blast
qed

theorem empty_month_yields_zeros_witness:
  "month_rows (args_get [''month'' \<mapsto> ''2024-07''] ''month'' ''2024-11'') june_store = [] \<and>
   (\<exists>tot. monthly_aggregate length ''2024-07'' june_store = Inr (tot, [], 0) \<and>
      map_of tot ''Fridge'' = Some 0) \<and>
   daily_analysis length ''2024-11'' [''month'' \<mapsto> ''2024-07''] june_store =
     Inr (Render_daily_analysis
       \<lparr>da_month = ''2024-07'', da_daily_max_consumers = [],
        da_appliance_days = [], da_most_frequent_max = (None, 0), da_total_days = 0\<rparr>)"
proof -
  let ?args = "[''month'' \<mapsto> ''2024-07'']"
  have m: "args_get ?args ''month'' ''2024-11'' = ''2024-07''" by (simp add: args_get_def)
  have e: "month_rows (args_get ?args ''month'' ''2024-11'') june_store = []"
    by (simp only: m month_rows_july)
  from empty_month_yields_zeros [OF e, of length] obtain tot where
    "monthly_aggregate length ''2024-07'' june_store = Inr (tot, [], 0)"
    "\<forall>a \<in> set (appliance_table june_store). map_of tot (name a) = Some 0"
    "daily_analysis length ''2024-11'' ?args june_store =
      Inr (Render_daily_analysis
       \<lparr>da_month = ''2024-07'', da_daily_max_consumers = [],
        da_appliance_days = [], da_most_frequent_max = (None, 0), da_total_days = 0\<rparr>)"
    unfolding m by blast
  moreover then have "map_of tot ''Fridge'' = Some 0" by (simp add: june_store_eq)
  ultimately show ?thesis using e by blast
qed

subsection \<open>The tariff lookup\<close>

text \<open>
  C10. COUNTRY_DATA has ten keys. When the country of the request (the query parameter,
  or USA when it is absent) is none of them, monthly_results raises KeyError and renders
  nothing, in any store; when it is one of them, the lookup succeeds and, in every store
  the application reaches, the report is rendered for that country.
\<close>

theorem monthly_results_country_lookup:
  "length COUNTRY_DATA = 10 \<and> distinct (map fst COUNTRY_DATA) \<and>
   (args_get args ''country'' ''USA'' \<notin> fst ` set COUNTRY_DATA \<longrightarrow>
      monthly_results rank tm args s = Inl KeyError) \<and>
   (args_get args ''country'' ''USA'' \<in> fst ` set COUNTRY_DATA \<longrightarrow>
      map_of COUNTRY_DATA (args_get args ''country'' ''USA'') \<noteq> None \<and>
      (reachable py_float s \<longrightarrow>
         (\<exists>mv. monthly_results rank tm args s = Inr (Render_monthly_results mv) \<and>
               mr_country mv = args_get args ''country'' ''USA'')))"
proof (intro conjI impI)
  show "length COUNTRY_DATA = 10" by (simp add: COUNTRY_DATA_def)
  show "distinct (map fst COUNTRY_DATA)" by (simp add: COUNTRY_DATA_def)
next
  assume "args_get args ''country'' ''USA'' \<notin> fst ` set COUNTRY_DATA"
  then have "map_of COUNTRY_DATA (args_get args ''country'' ''USA'') = None"
    by (simp add: map_of_eq_None_iff)
  then show "monthly_results rank tm args s = Inl KeyError"
    by (rule monthly_results_unknown_country)
next
  assume "args_get args ''country'' ''USA'' \<in> fst ` set COUNTRY_DATA"
  then show "map_of COUNTRY_DATA (args_get args ''country'' ''USA'') \<noteq> None"
    by (simp only: map_of_eq_None_iff not_not)
next
  assume key: "args_get args ''country'' ''USA'' \<in> fst ` set COUNTRY_DATA"
    and reach: "reachable py_float s"
  from key have "map_of COUNTRY_DATA (args_get args ''country'' ''USA'') \<noteq> None"
    by (simp only: map_of_eq_None_iff not_not)
  then obtain entry where
    entry: "map_of COUNTRY_DATA (args_get args ''country'' ''USA'') = Some entry" by auto
  from reach have ok: "store_ok s" by (rule reachable_ok)
  from monthly_aggregate_ok [OF ok, of rank "args_get args ''month'' tm"] obtain tot dmc where
    agg: "monthly_aggregate rank (args_get args ''month'' tm) s =
            Inr (tot, dmc, sum_list (map consumption_kwh (month_rows (args_get args ''month'' tm) s)))"
    by blast
  from monthly_results_view [OF agg entry]
  show "\<exists>mv. monthly_results rank tm args s = Inr (Render_monthly_results mv) \<and>
               mr_country mv = args_get args ''country'' ''USA''"
    by blast
qed

theorem monthly_results_country_lookup_witness:
  "args_get [''country'' \<mapsto> ''Atlantis''] ''country'' ''USA'' \<notin> fst ` set COUNTRY_DATA \<and>
   monthly_results length ''2024-06'' [''country'' \<mapsto> ''Atlantis''] june_store = Inl KeyError \<and>
   args_get [''country'' \<mapsto> ''Japan''] ''country'' ''USA'' \<in> fst ` set COUNTRY_DATA \<and>
   reachable sample_float june_store \<and>
   (\<exists>mv. monthly_results length ''2024-06'' [''country'' \<mapsto> ''Japan''] june_store =
            Inr (Render_monthly_results mv) \<and>
         mr_country mv = ''Japan'')"
proof -
  have a: "args_get [''country'' \<mapsto> ''Atlantis''] ''country'' ''USA'' \<notin> fst ` set COUNTRY_DATA"
    by (simp add: args_get_def COUNTRY_DATA_def)
  have j: "args_get [''country'' \<mapsto> ''Japan''] ''country'' ''USA'' = ''Japan''"
    by (simp add: args_get_def)
  have b: "args_get [''country'' \<mapsto> ''Japan''] ''country'' ''USA'' \<in> fst ` set COUNTRY_DATA"
    by (simp add: args_get_def COUNTRY_DATA_def)
  from monthly_results_country_lookup
    [of "[''country'' \<mapsto> ''Atlantis'']" length "''2024-06''" june_store sample_float] a
  have one: "monthly_results length ''2024-06'' [''country'' \<mapsto> ''Atlantis''] june_store =
      Inl KeyError" by blast
  from monthly_results_country_lookup
    [of "[''country'' \<mapsto> ''Japan'']" length "''2024-06''" june_store sample_float]
    b reachable_june_store
  have "\<exists>mv. monthly_results length ''2024-06'' [''country'' \<mapsto> ''Japan''] june_store =
            Inr (Render_monthly_results mv) \<and>
         mr_country mv = args_get [''country'' \<mapsto> ''Japan''] ''country'' ''USA''"
    by blast
  then have two: "\<exists>mv. monthly_results length ''2024-06'' [''country'' \<mapsto> ''Japan''] june_store =
            Inr (Render_monthly_results mv) \<and> mr_country mv = ''Japan''"
    unfolding j .
  from a one b reachable_june_store two show ?thesis by blast
qed

end
